theory Spec2Isabelle
  imports Main "HOL-Library.Sublist"
begin

section \<open>Myanmar food image scraper: exceptions\<close>

text \<open>
  The scraper catches with \<^verbatim>\<open>except Exception\<close>, with \<^verbatim>\<open>except KeyboardInterrupt\<close>
  and, once, with a bare \<^verbatim>\<open>except:\<close>. An exception is therefore either an instance of
  the class \<^verbatim>\<open>Exception\<close> (carrying the name of its concrete class, such as
  \<^verbatim>\<open>TimeoutException\<close>, \<^verbatim>\<open>HTTPError\<close>, \<^verbatim>\<open>OSError\<close>) or the interrupt, which is a
  \<^verbatim>\<open>BaseException\<close> outside that class.
\<close>

datatype error = Exception string | KeyboardInterrupt

fun is_Exception :: "error \<Rightarrow> bool" where
  "is_Exception (Exception _) = True"
| "is_Exception KeyboardInterrupt = False"

section \<open>Strings\<close>

text \<open>
  A Python \<^verbatim>\<open>str\<close> is modelled as a \<^typ>\<open>string\<close> of 8-bit characters, read as the
  code points U+0000 to U+00FF. This is what the scraper handles: URLs, and HTTP header
  values, which the HTTP client decodes as Latin-1.

  \<^verbatim>\<open>str.lower()\<close> on that range maps A to Z, and the Latin-1 capitals U+00C0 to
  U+00DE other than the multiplication sign U+00D7, to the code point 32 above.
\<close>

definition lower_char :: "char \<Rightarrow> char" where
  "lower_char c =
     (let n = (of_char c :: nat)
      in if (65 \<le> n \<and> n \<le> 90) \<or> (192 \<le> n \<and> n \<le> 222 \<and> n \<noteq> 215)
         then char_of (n + 32) else c)"

definition lower :: "string \<Rightarrow> string" where
  "lower s = map lower_char s"

text \<open>\<^verbatim>\<open>sub in s\<close>: \<open>sub\<close> occurs in \<open>s\<close> as a contiguous substring.\<close>

fun str_contains :: "string \<Rightarrow> string \<Rightarrow> bool" where
  "str_contains [] sub = (sub = [])"
| "str_contains (c # s) sub = (prefix sub (c # s) \<or> str_contains s sub)"

text \<open>\<^verbatim>\<open>s.startswith(p)\<close>.\<close>

definition startswith :: "string \<Rightarrow> string \<Rightarrow> bool" where
  "startswith s p = prefix p s"

text \<open>Python truthiness of an optional string: \<^verbatim>\<open>None\<close> and the empty string are false.\<close>

fun truthy :: "string option \<Rightarrow> bool" where
  "truthy None = False"
| "truthy (Some s) = (s \<noteq> [])"

text \<open>\<^verbatim>\<open>str(n)\<close> for a non-negative integer, as the f-string \<^verbatim>\<open>{i+1}\<close> formats it.\<close>

definition digit_char :: "nat \<Rightarrow> char" where
  "digit_char d = ''0123456789'' ! d"

fun str_of_nat :: "nat \<Rightarrow> string" where
  "str_of_nat n =
     (if n < 10 then [digit_char n] else str_of_nat (n div 10) @ [digit_char (n mod 10)])"

declare str_of_nat.simps [simp del]

text \<open>
  \<^verbatim>\<open>xs[:k]\<close> for an integer \<open>k\<close>: the first \<open>k\<close> entries when \<open>k\<close> is not negative, and
  all but the last \<open>-k\<close> entries when it is.
\<close>

definition py_slice_to :: "'a list \<Rightarrow> int \<Rightarrow> 'a list" where
  "py_slice_to xs k = (if 0 \<le> k then take (nat k) xs else take (length xs - nat (- k)) xs)"

section \<open>Paths and file extensions\<close>

text \<open>\<^verbatim>\<open>os.path.join(a, b)\<close> on a POSIX system, for two components.\<close>

definition path_join :: "string \<Rightarrow> string \<Rightarrow> string" where
  "path_join a b =
     (if startswith b ''/'' then b
      else if a = [] \<or> last a = CHR ''/'' then a @ b
      else a @ ''/'' @ b)"

text \<open>
  \<^verbatim>\<open>p.rfind(c)\<close>: the index of the last occurrence of the character, or \<open>-1\<close>.
\<close>

fun rfind :: "string \<Rightarrow> char \<Rightarrow> int" where
  "rfind [] c = -1"
| "rfind (x # xs) c =
     (let r = rfind xs c in if 0 \<le> r then r + 1 else if x = c then 0 else -1)"

text \<open>
  \<^verbatim>\<open>os.path.splitext(p)\<close> on a POSIX system: the extension starts at the last dot of
  \<open>p\<close>, provided that dot lies after the last slash and that some character between that
  slash and the dot is not itself a dot (the library's loop skips the leading dots of the
  file name and returns at the first other character); otherwise the extension is empty.
\<close>

definition splitext :: "string \<Rightarrow> string \<times> string" where
  "splitext p =
     (let sepIndex = rfind p CHR ''/'';
          dotIndex = rfind p CHR ''.''
      in if dotIndex > sepIndex
            \<and> dropWhile (\<lambda>c. c = CHR ''.'') (drop (nat (sepIndex + 1)) (take (nat dotIndex) p)) \<noteq> []
         then (take (nat dotIndex) p, drop (nat dotIndex) p)
         else (p, []))"

text \<open>
  The result of \<^verbatim>\<open>urllib.parse.urlparse\<close>. The scraper reads \<^verbatim>\<open>.path\<close> only.
\<close>

record parse_result =
  scheme :: string
  netloc :: string
  path :: string
  params :: string
  query_str :: string
  fragment :: string

text \<open>
  Lines 217 to 223: the extension of the saved file is the path's extension when that is
  one of the four listed strings, and \<^verbatim>\<open>.jpg\<close> otherwise.
\<close>

definition file_extension_of :: "parse_result \<Rightarrow> string" where
  "file_extension_of parsed_url =
     (let file_extension = snd (splitext (path parsed_url))
      in if file_extension = [] \<or> file_extension \<notin> set [''.jpg'', ''.jpeg'', ''.png'', ''.webp'']
         then ''.jpg'' else file_extension)"

text \<open>
  The library function \<^verbatim>\<open>urlparse\<close> on a URL that its sanitising and validating steps
  leave alone (no leading control character or space, no tab or line break, a netloc
  without brackets and within ASCII): split off the scheme at the first colon when what
  precedes it is a letter followed by scheme characters, the netloc after \<^verbatim>\<open>//\<close> up to
  the first of \<^verbatim>\<open>/ ? #\<close>, the fragment at the first \<^verbatim>\<open>#\<close>, the query at the first
  \<^verbatim>\<open>?\<close>, and, for a scheme that takes parameters, the parameters of the last path
  segment at its first semicolon.
\<close>

definition scheme_chars :: "char set" where
  "scheme_chars = set ''abcdefghijklmnopqrstuvwxyzABCDEFGHIJKLMNOPQRSTUVWXYZ0123456789+-.''"

definition isalpha_ascii :: "char \<Rightarrow> bool" where
  "isalpha_ascii c = (c \<in> set ''abcdefghijklmnopqrstuvwxyzABCDEFGHIJKLMNOPQRSTUVWXYZ'')"

definition uses_params :: "string list" where
  "uses_params = ['''', ''ftp'', ''hdl'', ''prospero'', ''http'', ''imap'', ''https'', ''shttp'',
                  ''rtsp'', ''rtspu'', ''sip'', ''sips'', ''mms'', ''sftp'', ''tel'']"

text \<open>\<^verbatim>\<open>s.split(c, 1)\<close> for a character that occurs in \<open>s\<close>.\<close>

definition split_once :: "char \<Rightarrow> string \<Rightarrow> string \<times> string" where
  "split_once c s = (takeWhile (\<lambda>x. x \<noteq> c) s, drop 1 (dropWhile (\<lambda>x. x \<noteq> c) s))"

definition split_scheme :: "string \<Rightarrow> string \<times> string" where
  "split_scheme url =
     (let head = takeWhile (\<lambda>x. x \<noteq> CHR '':'') url
      in if CHR '':'' \<in> set url \<and> head \<noteq> [] \<and> isalpha_ascii (hd url) \<and> set head \<subseteq> scheme_chars
         then (lower head, drop (length head + 1) url)
         else ([], url))"

definition splitnetloc :: "string \<Rightarrow> string \<times> string" where
  "splitnetloc url =
     (let rest = drop 2 url;
          domain = takeWhile (\<lambda>x. x \<notin> set ''/?#'') rest
      in (domain, drop (length domain) rest))"

definition splitparams :: "string \<Rightarrow> string \<times> string" where
  "splitparams url =
     (if CHR ''/'' \<in> set url
      then (let k = nat (rfind url CHR ''/''); seg = drop k url
            in if CHR '';'' \<in> set seg
               then (take k url @ fst (split_once CHR '';'' seg), snd (split_once CHR '';'' seg))
               else (url, []))
      else split_once CHR '';'' url)"

definition urlparse :: "string \<Rightarrow> parse_result" where
  "urlparse url0 =
     (let (sch, url1) = split_scheme url0;
          (nloc, url2) = (if take 2 url1 = ''//'' then splitnetloc url1 else ([], url1));
          (url3, frag) = (if CHR ''#'' \<in> set url2 then split_once CHR ''#'' url2 else (url2, []));
          (url4, qry) = (if CHR ''?'' \<in> set url3 then split_once CHR ''?'' url3 else (url3, []));
          (url5, prm) = (if sch \<in> set uses_params \<and> CHR '';'' \<in> set url4
                         then splitparams url4 else (url4, []))
      in \<lparr>scheme = sch, netloc = nloc, path = url5, params = prm, query_str = qry,
          fragment = frag\<rparr>)"

section \<open>Deduplication of the discovered URLs\<close>

text \<open>
  \<^verbatim>\<open>image_urls = list(dict.fromkeys(image_urls))\<close>.
  A Python dict keeps its keys in insertion order; storing under a key that is already
  present replaces the value and leaves the key where it is. \<^verbatim>\<open>dict.fromkeys\<close> stores
  \<^verbatim>\<open>None\<close> under every element of its argument, from left to right, and \<^verbatim>\<open>list\<close> of a
  dict is the list of its keys in that order.
\<close>

fun dict_setitem :: "('k \<times> 'v) list \<Rightarrow> 'k \<Rightarrow> 'v \<Rightarrow> ('k \<times> 'v) list" where
  "dict_setitem [] k v = [(k, v)]"
| "dict_setitem ((k', v') # d) k v =
     (if k' = k then (k', v) # d else (k', v') # dict_setitem d k v)"

definition dict_fromkeys :: "'k list \<Rightarrow> ('k \<times> unit) list" where
  "dict_fromkeys ks = foldl (\<lambda>d k. dict_setitem d k ()) [] ks"

definition dict_keys :: "('k \<times> 'v) list \<Rightarrow> 'k list" where
  "dict_keys d = map fst d"

definition dedup_urls :: "'k list \<Rightarrow> 'k list" where
  "dedup_urls image_urls = dict_keys (dict_fromkeys image_urls)"

section \<open>The environment and the state\<close>

text \<open>
  An HTTP response as \<^verbatim>\<open>requests\<close> presents it. Its \<^verbatim>\<open>headers\<close> are a
  case-insensitive dictionary, which stores every entry under the lower-cased header name
  and looks a name up lower-cased.
\<close>

record response =
  status_code :: nat
  headers :: "string \<rightharpoonup> string"
  content :: string

definition headers_get :: "(string \<rightharpoonup> string) \<Rightarrow> string \<Rightarrow> string \<Rightarrow> string" where
  "headers_get h name dflt = (case h (lower name) of None \<Rightarrow> dflt | Some v \<Rightarrow> v)"

text \<open>\<^verbatim>\<open>response.raise_for_status()\<close> raises for the status codes 400 to 599.\<close>

definition raise_for_status :: "response \<Rightarrow> error option" where
  "raise_for_status r =
     (if 400 \<le> status_code r \<and> status_code r < 600 then Some (Exception ''HTTPError'') else None)"

text \<open>
  What \<^verbatim>\<open>with open(file_path, 'wb') as f: f.write(data)\<close> can do: write the file, fail
  to open it (nothing changes), or fail while writing, which leaves the file, already
  created or truncated by the open, with some part of the data.
\<close>

datatype write_outcome = Written | OpenFails error | WriteFails error string

text \<open>
  An image element answers \<^verbatim>\<open>get_attribute(name)\<close> with a string, with \<^verbatim>\<open>None\<close>, or
  by raising.
\<close>

type_synonym img = "string \<Rightarrow> error + string option"

text \<open>
  Everything outside the program: the browser, the network, the file system's faults, the
  library's URL parser and the interrupts that arrive during a delay. Each operation has
  a fixed outcome per argument; an outcome \<open>Some e\<close> or \<open>Inl e\<close> is the exception the
  operation raises. The calls to \<^verbatim>\<open>time.sleep\<close> inside \<^verbatim>\<open>get_image_urls\<close> only
  delay; an interrupt delivered during one of them appears as the outcome of the driver
  operation next to it.
\<close>

record env =
  chrome_launch :: "string list \<Rightarrow> error + nat"
  drv_get :: "string \<Rightarrow> error option"
  drv_execute_script :: "string \<Rightarrow> nat \<Rightarrow> error option"
  drv_wait_imgs :: "string \<Rightarrow> error option"
  drv_find_imgs :: "string \<Rightarrow> error + img list"
  drv_quit :: "nat \<Rightarrow> error option"
  requests_get :: "string \<Rightarrow> error + response"
  fs_makedirs :: "string \<Rightarrow> error option"
  fs_write :: "string \<Rightarrow> string \<Rightarrow> write_outcome"
  lib_urlparse :: "string \<Rightarrow> error + parse_result"
  sleep_between :: "nat \<Rightarrow> error option"

text \<open>
  What the program changes: its own field \<^verbatim>\<open>self.driver\<close>, the files and directories
  on disk, and, as a record of its effects on the outside, the browser sessions on which
  \<^verbatim>\<open>quit()\<close> has been invoked and the URLs passed to \<^verbatim>\<open>requests.get\<close>, both in order.
\<close>

record state =
  driver :: "nat option"
  files :: "string \<rightharpoonup> string"
  dirs :: "string set"
  quits :: "nat list"
  fetched :: "string list"

text \<open>The fields that \<^verbatim>\<open>__init__\<close> sets and nothing changes afterwards.\<close>

record scraper =
  headless :: bool
  images_per_food :: int
  base_folder :: string
  myanmar_foods :: "string list"

definition init_scraper :: "bool \<Rightarrow> int \<Rightarrow> scraper" where
  "init_scraper hl n =
     \<lparr>headless = hl, images_per_food = n, base_folder = ''Myanmar_Food_Images'',
      myanmar_foods =
        [''mohinga'', ''laphet thoke'', ''shan noodles'', ''mont hin gar'', ''khow suey'',
         ''nga htamin'', ''mandalay mee shay'', ''ohn no khao swe'', ''kyet thar hin'',
         ''wet tha hin'', ''nga baung doke'', ''mont lone yay paw'', ''shwe yin aye'',
         ''faluda'', ''htamin thoke'', ''thoke sone'', ''dan bauk'', ''meeshay'',
         ''nan gyi thoke'', ''mont ti'']\<rparr>"

section \<open>The browser session\<close>

text \<open>
  \<^verbatim>\<open>setup_driver\<close>: a failure to launch is logged and raised again; a launch stores the
  session in \<^verbatim>\<open>self.driver\<close>.
\<close>

definition chrome_options :: "scraper \<Rightarrow> string list" where
  "chrome_options self =
     (if headless self then [''--headless''] else [])
     @ [''--no-sandbox'', ''--disable-dev-shm-usage'', ''--disable-gpu'',
        ''--window-size=1920,1080'']"

definition setup_driver :: "env \<Rightarrow> scraper \<Rightarrow> state \<Rightarrow> (error + unit) \<times> state" where
  "setup_driver E self s =
     (case chrome_launch E (chrome_options self) of
        Inl e \<Rightarrow> (Inl e, s)
      | Inr h \<Rightarrow> (Inr (), s\<lparr>driver := Some h\<rparr>))"

text \<open>
  The \<^verbatim>\<open>finally\<close> block of both entry points: \<^verbatim>\<open>if self.driver: self.driver.quit()\<close>.
  A session object is true.
\<close>

definition quit_driver :: "env \<Rightarrow> state \<Rightarrow> error option \<times> state" where
  "quit_driver E s =
     (case driver s of
        None \<Rightarrow> (None, s)
      | Some h \<Rightarrow> (drv_quit E h, s\<lparr>quits := quits s @ [h]\<rparr>))"

definition create_folder :: "env \<Rightarrow> scraper \<Rightarrow> string \<Rightarrow> state \<Rightarrow> (error + string) \<times> state" where
  "create_folder E self folder_name s =
     (let folder_path = path_join (base_folder self) folder_name
      in case fs_makedirs E folder_path of
           Some e \<Rightarrow> (Inl e, s)
         | None \<Rightarrow> (Inr folder_path, s\<lparr>dirs := insert folder_path (dirs s)\<rparr>))"

section \<open>Collecting the image URLs\<close>

definition search_url :: "string \<Rightarrow> string" where
  "search_url query = ''https://www.google.com/search?tbm=isch&q='' @ query @ '' Myanmar food''"

text \<open>
  The scroll loop. After each scroll the code looks for the button that shows more
  results inside a \<^verbatim>\<open>try\<close> whose bare \<^verbatim>\<open>except:\<close> passes: whatever that block does or
  raises, the loop goes on, so only the scroll itself can end it.
\<close>

fun scroll_loop :: "env \<Rightarrow> string \<Rightarrow> nat list \<Rightarrow> error option" where
  "scroll_loop E url [] = None"
| "scroll_loop E url (i # rest) =
     (case drv_execute_script E url i of
        Some e \<Rightarrow> Some e
      | None \<Rightarrow> scroll_loop E url rest)"

text \<open>\<^verbatim>\<open>src or data_src\<close>: the first operand when it is true, the second otherwise.\<close>

definition url_to_use :: "string option \<Rightarrow> string option \<Rightarrow> string option" where
  "url_to_use src data_src = (if truthy src then src else data_src)"

text \<open>Lines 146 to 149: what one chosen value appends to \<^verbatim>\<open>image_urls\<close>.\<close>

fun keep_url :: "string option \<Rightarrow> string list" where
  "keep_url None = []"
| "keep_url (Some u) =
     (if u \<noteq> [] \<and> startswith u ''http'' then (if \<not> startswith u ''data:'' then [u] else [])
      else [])"

fun collect_image_urls :: "img list \<Rightarrow> string list \<Rightarrow> error + string list" where
  "collect_image_urls [] image_urls = Inr image_urls"
| "collect_image_urls (img # rest) image_urls =
     (case img ''src'' of
        Inl e \<Rightarrow> Inl e
      | Inr src \<Rightarrow>
          (case img ''data-src'' of
             Inl e \<Rightarrow> Inl e
           | Inr data_src \<Rightarrow>
               collect_image_urls rest (image_urls @ keep_url (url_to_use src data_src))))"

text \<open>The body of the \<^verbatim>\<open>try\<close> of \<^verbatim>\<open>get_image_urls\<close>, lines 107 to 155.\<close>

definition get_image_urls_try :: "env \<Rightarrow> state \<Rightarrow> string \<Rightarrow> error + string list" where
  "get_image_urls_try E s query =
     (let url = search_url query
      in case driver s of
           None \<Rightarrow> Inl (Exception ''AttributeError'')
         | Some h \<Rightarrow>
        (case drv_get E url of
           Some e \<Rightarrow> Inl e
         | None \<Rightarrow>
        (case scroll_loop E url [0..<15] of
           Some e \<Rightarrow> Inl e
         | None \<Rightarrow>
        (case drv_wait_imgs E url of
           Some e \<Rightarrow> Inl e
         | None \<Rightarrow>
        (case drv_find_imgs E url of
           Inl e \<Rightarrow> Inl e
         | Inr image_elements \<Rightarrow>
        (case collect_image_urls image_elements [] of
           Inl e \<Rightarrow> Inl e
         | Inr image_urls \<Rightarrow> Inr (dedup_urls image_urls)))))))"

text \<open>\<^verbatim>\<open>except Exception\<close>: log and return the empty list. An interrupt is not caught here.\<close>

definition get_image_urls :: "env \<Rightarrow> state \<Rightarrow> string \<Rightarrow> error + string list" where
  "get_image_urls E s query =
     (case get_image_urls_try E s query of
        Inl e \<Rightarrow> (if is_Exception e then Inr [] else Inl e)
      | Inr image_urls \<Rightarrow> Inr image_urls)"

section \<open>Downloading one image\<close>

text \<open>The body of the \<^verbatim>\<open>try\<close> of \<^verbatim>\<open>download_image\<close>, lines 173 to 188.\<close>

definition download_image_try ::
  "env \<Rightarrow> string \<Rightarrow> string \<Rightarrow> state \<Rightarrow> (error + bool) \<times> state" where
  "download_image_try E img_url file_path s =
     (let s1 = s\<lparr>fetched := fetched s @ [img_url]\<rparr>
      in case requests_get E img_url of
           Inl e \<Rightarrow> (Inl e, s1)
         | Inr resp \<Rightarrow>
        (case raise_for_status resp of
           Some e \<Rightarrow> (Inl e, s1)
         | None \<Rightarrow>
        (let content_type = headers_get (headers resp) ''content-type'' ''''
         in if \<not> str_contains (lower content_type) ''image'' then (Inr False, s1)
            else (case fs_write E file_path (content resp) of
                    OpenFails e \<Rightarrow> (Inl e, s1)
                  | WriteFails e part \<Rightarrow> (Inl e, s1\<lparr>files := (files s1)(file_path \<mapsto> part)\<rparr>)
                  | Written \<Rightarrow>
                      (Inr True, s1\<lparr>files := (files s1)(file_path \<mapsto> content resp)\<rparr>)))))"

text \<open>\<^verbatim>\<open>except Exception\<close>: log a warning and return \<^verbatim>\<open>False\<close>.\<close>

definition download_image ::
  "env \<Rightarrow> string \<Rightarrow> string \<Rightarrow> state \<Rightarrow> (error + bool) \<times> state" where
  "download_image E img_url file_path s =
     (case download_image_try E img_url file_path s of
        (Inl e, s') \<Rightarrow> (if is_Exception e then (Inr False, s') else (Inl e, s'))
      | (Inr ok, s') \<Rightarrow> (Inr ok, s'))"

section \<open>Scraping one food\<close>

text \<open>
  The name of the file for the URL at position \<open>i\<close> of the enumeration, line 225.
\<close>

definition file_name_of :: "string \<Rightarrow> nat \<Rightarrow> parse_result \<Rightarrow> string" where
  "file_name_of food_name i parsed_url =
     food_name @ ''_'' @ str_of_nat (i + 1) @ file_extension_of parsed_url"

text \<open>
  The body of the \<^verbatim>\<open>try\<close> inside the download loop, lines 217 to 231: the new state and
  whether \<^verbatim>\<open>downloaded_count\<close> goes up.
\<close>

definition process_image ::
  "env \<Rightarrow> string \<Rightarrow> string \<Rightarrow> nat \<Rightarrow> string \<Rightarrow> state \<Rightarrow> (error + bool) \<times> state" where
  "process_image E food_name folder_path i img_url s =
     (case lib_urlparse E img_url of
        Inl e \<Rightarrow> (Inl e, s)
      | Inr parsed_url \<Rightarrow>
          download_image E img_url
            (path_join folder_path (file_name_of food_name i parsed_url)) s)"

text \<open>
  The loop over \<^verbatim>\<open>enumerate(image_urls[:self.images_per_food])\<close>. An exception of class
  \<^verbatim>\<open>Exception\<close> in the body is logged and the loop continues with the next URL.
\<close>

fun download_loop ::
  "env \<Rightarrow> string \<Rightarrow> string \<Rightarrow> (nat \<times> string) list \<Rightarrow> nat \<Rightarrow> state \<Rightarrow> (error + nat) \<times> state" where
  "download_loop E food_name folder_path [] downloaded_count s = (Inr downloaded_count, s)"
| "download_loop E food_name folder_path ((i, img_url) # rest) downloaded_count s =
     (case process_image E food_name folder_path i img_url s of
        (Inl e, s') \<Rightarrow>
          (if is_Exception e then download_loop E food_name folder_path rest downloaded_count s'
           else (Inl e, s'))
      | (Inr ok, s') \<Rightarrow>
          download_loop E food_name folder_path rest
            (if ok then downloaded_count + 1 else downloaded_count) s')"

definition scrape_food_images ::
  "env \<Rightarrow> scraper \<Rightarrow> string \<Rightarrow> state \<Rightarrow> (error + unit) \<times> state" where
  "scrape_food_images E self food_name s =
     (case create_folder E self food_name s of
        (Inl e, s1) \<Rightarrow> (Inl e, s1)
      | (Inr folder_path, s1) \<Rightarrow>
        (case get_image_urls E s1 food_name of
           Inl e \<Rightarrow> (Inl e, s1)
         | Inr image_urls \<Rightarrow>
             (if image_urls = [] then (Inr (), s1)
              else (case download_loop E food_name folder_path
                           (enumerate 0 (py_slice_to image_urls (images_per_food self))) 0 s1 of
                      (Inl e, s2) \<Rightarrow> (Inl e, s2)
                    | (Inr downloaded_count, s2) \<Rightarrow> (Inr (), s2)))))"

section \<open>The two entry points\<close>

text \<open>
  The loop of \<^verbatim>\<open>scrape_all_foods\<close> over \<^verbatim>\<open>enumerate(self.myanmar_foods, 1)\<close>, with the
  delay after every food but the last.
\<close>

fun foods_loop ::
  "env \<Rightarrow> scraper \<Rightarrow> (nat \<times> string) list \<Rightarrow> state \<Rightarrow> (error + unit) \<times> state" where
  "foods_loop E self [] s = (Inr (), s)"
| "foods_loop E self ((i, food) # rest) s =
     (case scrape_food_images E self food s of
        (Inl e, s') \<Rightarrow> (Inl e, s')
      | (Inr u, s') \<Rightarrow>
          (if i < length (myanmar_foods self)
           then (case sleep_between E i of
                   Some e \<Rightarrow> (Inl e, s')
                 | None \<Rightarrow> foods_loop E self rest s')
           else foods_loop E self rest s'))"

text \<open>
  \<^verbatim>\<open>scrape_all_foods\<close>. The base folder and the browser are set up before the \<^verbatim>\<open>try\<close>,
  so their exceptions leave the function. The handlers of the \<^verbatim>\<open>try\<close> catch the
  interrupt and every \<^verbatim>\<open>Exception\<close> and only log; the \<^verbatim>\<open>finally\<close> block runs after
  them, and an exception of \<^verbatim>\<open>quit()\<close> leaves the function.
\<close>

definition scrape_all_foods :: "env \<Rightarrow> scraper \<Rightarrow> state \<Rightarrow> (error + unit) \<times> state" where
  "scrape_all_foods E self s =
     (case fs_makedirs E (base_folder self) of
        Some e \<Rightarrow> (Inl e, s)
      | None \<Rightarrow>
        (case setup_driver E self (s\<lparr>dirs := insert (base_folder self) (dirs s)\<rparr>) of
           (Inl e, s1) \<Rightarrow> (Inl e, s1)
         | (Inr u, s1) \<Rightarrow>
           (case foods_loop E self (enumerate 1 (myanmar_foods self)) s1 of
              (r, s2) \<Rightarrow>
                (case quit_driver E s2 of
                   (Some e, s3) \<Rightarrow> (Inl e, s3)
                 | (None, s3) \<Rightarrow> (Inr (), s3)))))"

text \<open>
  \<^verbatim>\<open>scrape_single_food\<close>. Its \<^verbatim>\<open>try\<close> catches \<^verbatim>\<open>Exception\<close> only: an interrupt stays
  pending through the \<^verbatim>\<open>finally\<close> block and leaves the function after it, unless
  \<^verbatim>\<open>quit()\<close> raises, which replaces it.
\<close>

definition scrape_single_food ::
  "env \<Rightarrow> scraper \<Rightarrow> string \<Rightarrow> state \<Rightarrow> (error + unit) \<times> state" where
  "scrape_single_food E self food_name s =
     (case fs_makedirs E (base_folder self) of
        Some e \<Rightarrow> (Inl e, s)
      | None \<Rightarrow>
        (case setup_driver E self (s\<lparr>dirs := insert (base_folder self) (dirs s)\<rparr>) of
           (Inl e, s1) \<Rightarrow> (Inl e, s1)
         | (Inr u, s1) \<Rightarrow>
           (case scrape_food_images E self food_name s1 of
              (r, s2) \<Rightarrow>
                (case quit_driver E s2 of
                   (Some e, s3) \<Rightarrow> (Inl e, s3)
                 | (None, s3) \<Rightarrow>
                     (case r of
                        Inl e \<Rightarrow> (if is_Exception e then (Inr (), s3) else (Inl e, s3))
                      | Inr u \<Rightarrow> (Inr (), s3))))))"

section \<open>The steps of the URL parser\<close>

text \<open>
  Two steps of \<^verbatim>\<open>urlparse\<close> on their own, as its definition performs them: the split of
  the netloc, and the path that remains once fragment and query are cut off.
\<close>

definition netloc_step :: "string \<Rightarrow> string \<times> string" where
  "netloc_step url1 = (if take 2 url1 = ''//'' then splitnetloc url1 else ([], url1))"

definition path_step :: "string \<Rightarrow> string" where
  "path_step url2 =
     (let (url3, frag) = (if CHR ''#'' \<in> set url2 then split_once CHR ''#'' url2 else (url2, []));
          (url4, qry) = (if CHR ''?'' \<in> set url3 then split_once CHR ''?'' url3 else (url3, []))
      in url4)"

section \<open>Observations used in the statements\<close>

text \<open>
  The paths whose content differs between two states, and the condition under which
  \<^verbatim>\<open>download_image\<close> saves a file: the request returns, the status is no error, the
  content type names an image and the write goes through.
\<close>

definition written :: "state \<Rightarrow> state \<Rightarrow> string set" where
  "written s s' = {fp. files s' fp \<noteq> files s fp}"

definition download_succeeds :: "env \<Rightarrow> string \<Rightarrow> string \<Rightarrow> bool" where
  "download_succeeds E img_url file_path =
     (case requests_get E img_url of
        Inl e \<Rightarrow> False
      | Inr resp \<Rightarrow>
          raise_for_status resp = None
          \<and> str_contains (lower (headers_get (headers resp) ''content-type'' '''')) ''image''
          \<and> fs_write E file_path (content resp) = Written)"

section \<open>A sample environment\<close>

text \<open>
  A results page with eight image elements (one of them a duplicate, one with an inline
  image as its source, one with an empty source, one without attributes), an environment
  in which every operation succeeds and every URL answers with an image, a variant in
  which one URL fails with a connection error and another answers with an HTML page, and
  a state with an open browser session and an empty disk.
\<close>

definition demo_img :: "string option \<Rightarrow> string option \<Rightarrow> img" where
  "demo_img src data_src =
     (\<lambda>name. if name = ''src'' then Inr src
             else if name = ''data-src'' then Inr data_src else Inr None)"

definition demo_response :: "nat \<Rightarrow> string \<Rightarrow> response" where
  "demo_response code ctype =
     \<lparr>status_code = code, headers = [''content-type'' \<mapsto> ctype], content = ''bytes''\<rparr>"

definition demo_page :: "img list" where
  "demo_page =
     [demo_img (Some ''http://img.example/a.jpg'') None,
      demo_img None (Some ''http://img.example/b.PNG?x=1''),
      demo_img (Some ''http://img.example/c.png'') (Some ''http://img.example/c2.png''),
      demo_img (Some ''http://img.example/a.jpg'') None,
      demo_img (Some ''data:image/png;base64,AAAA'') (Some ''http://img.example/f.jpg''),
      demo_img (Some '''') (Some ''http://img.example/d''),
      demo_img None None,
      demo_img (Some ''http://img.example/e.webp'') None]"

definition demo_env :: env where
  "demo_env =
     \<lparr>chrome_launch = (\<lambda>options. Inr 1),
      drv_get = (\<lambda>url. None),
      drv_execute_script = (\<lambda>url i. None),
      drv_wait_imgs = (\<lambda>url. None),
      drv_find_imgs = (\<lambda>url. Inr demo_page),
      drv_quit = (\<lambda>h. None),
      requests_get = (\<lambda>url. Inr (demo_response 200 ''image/jpeg'')),
      fs_makedirs = (\<lambda>p. None),
      fs_write = (\<lambda>p d. Written),
      lib_urlparse = (\<lambda>url. Inr (urlparse url)),
      sleep_between = (\<lambda>i. None)\<rparr>"

definition demo_env_failing :: env where
  "demo_env_failing =
     demo_env\<lparr>requests_get :=
       (\<lambda>url. if url = ''http://img.example/b.PNG?x=1'' then Inl (Exception ''ConnectionError'')
              else if url = ''http://img.example/d'' then Inr (demo_response 200 ''text/html'')
              else Inr (demo_response 200 ''image/jpeg''))\<rparr>"

definition demo_state :: state where
  "demo_state = \<lparr>driver = Some 1, files = Map.empty, dirs = {}, quits = [], fetched = []\<rparr>"

section \<open>Properties of the deduplication\<close>

lemma dict_keys_setitem:
  "dict_keys (dict_setitem d k v) =
     (if k \<in> set (dict_keys d) then dict_keys d else dict_keys d @ [k])"
  by (induction d) (force simp: dict_keys_def)+

lemma dedup_urls_Nil: "dedup_urls [] = []"
  by (simp add: dedup_urls_def dict_fromkeys_def dict_keys_def)

lemma dedup_urls_snoc_raw:
  "dedup_urls (ks @ [k]) =
     (if k \<in> set (dedup_urls ks) then dedup_urls ks else dedup_urls ks @ [k])"
  by (simp add: dedup_urls_def dict_fromkeys_def dict_keys_setitem)

lemma set_dedup_urls: "set (dedup_urls ks) = set ks"
  by (induction ks rule: rev_induct) (auto simp: dedup_urls_Nil dedup_urls_snoc_raw)

lemma dedup_urls_snoc:
  "dedup_urls (ks @ [k]) = (if k \<in> set ks then dedup_urls ks else dedup_urls ks @ [k])"
  by (simp add: dedup_urls_snoc_raw set_dedup_urls)

lemma distinct_dedup_urls: "distinct (dedup_urls ks)"
  by (induction ks rule: rev_induct) (auto simp: dedup_urls_Nil dedup_urls_snoc set_dedup_urls)

lemma subseq_dedup_urls: "subseq (dedup_urls ks) ks"
proof (induction ks rule: rev_induct)
  case Nil
  show ?case by (simp add: dedup_urls_Nil)
next
  case (snoc k ks)
  show ?case
  proof (cases "k \<in> set ks")
    case True
    have "subseq (dedup_urls ks) (ks @ [k])"
      using snoc.IH by (rule list_emb_prefix)
    with True show ?thesis by (simp add: dedup_urls_snoc)
  next
    case False
    have "subseq (dedup_urls ks @ [k]) (ks @ [k])"
      using snoc.IH by (simp add: list_emb_append_mono)
    with False show ?thesis by (simp add: dedup_urls_snoc)
  qed
qed

lemma dedup_urls_distinct_id: "distinct ks \<Longrightarrow> dedup_urls ks = ks"
  by (induction ks rule: rev_induct) (auto simp: dedup_urls_Nil dedup_urls_snoc)

lemma dedup_urls_first_seen:
  "dedup_urls ks = map (\<lambda>i. ks ! i) (filter (\<lambda>i. ks ! i \<notin> set (take i ks)) [0..<length ks])"
proof (induction ks rule: rev_induct)
  case Nil
  show ?case by (simp add: dedup_urls_Nil)
next
  case (snoc k ks)
  have f: "filter (\<lambda>i. (ks @ [k]) ! i \<notin> set (take i (ks @ [k]))) [0..<length ks]
         = filter (\<lambda>i. ks ! i \<notin> set (take i ks)) [0..<length ks]"
    by (rule filter_cong) (auto simp: nth_append)
  have m: "map (\<lambda>i. (ks @ [k]) ! i) (filter (\<lambda>i. ks ! i \<notin> set (take i ks)) [0..<length ks])
         = map (\<lambda>i. ks ! i) (filter (\<lambda>i. ks ! i \<notin> set (take i ks)) [0..<length ks])"
    by (rule map_cong) (auto simp: nth_append)
  have k: "(ks @ [k]) ! length ks \<notin> set (take (length ks) (ks @ [k])) \<longleftrightarrow> k \<notin> set ks"
    by simp
  have u: "[0..<length (ks @ [k])] = [0..<length ks] @ [length ks]"
    by simp
  show ?case
    unfolding u filter_append map_append f m snoc.IH [symmetric] dedup_urls_snoc
    using k by simp
qed

text \<open>
  C3. For every list of discovered URLs, the deduplication step of \<^verbatim>\<open>get_image_urls\<close>
  returns a subsequence of its input that holds every URL of the input once, in the order
  of first appearance (its elements are the input's entries at exactly those positions
  where the entry has not occurred earlier), and it is idempotent.
\<close>

theorem dedup_urls_first_seen_order_idempotent:
  "subseq (dedup_urls ks) ks
   \<and> distinct (dedup_urls ks)
   \<and> set (dedup_urls ks) = set ks
   \<and> dedup_urls ks = map (\<lambda>i. ks ! i) (filter (\<lambda>i. ks ! i \<notin> set (take i ks)) [0..<length ks])
   \<and> dedup_urls (dedup_urls ks) = dedup_urls ks"
  using subseq_dedup_urls [of ks] distinct_dedup_urls [of ks] set_dedup_urls [of ks]
    dedup_urls_first_seen [of ks] dedup_urls_distinct_id [OF distinct_dedup_urls [of ks]]
  by simp

section \<open>Downloading one image: properties\<close>

lemma lower_content_type: "lower ''content-type'' = ''content-type''"
  by code_simp

lemma download_image_cases:
  "download_image E img_url file_path s =
     (let s1 = s\<lparr>fetched := fetched s @ [img_url]\<rparr>
      in case requests_get E img_url of
           Inl e \<Rightarrow> (if is_Exception e then (Inr False, s1) else (Inl e, s1))
         | Inr resp \<Rightarrow>
             (if 400 \<le> status_code resp \<and> status_code resp < 600 then (Inr False, s1)
              else if \<not> str_contains (lower (headers_get (headers resp) ''content-type'' '''')) ''image''
              then (Inr False, s1)
              else (case fs_write E file_path (content resp) of
                      OpenFails e \<Rightarrow> (if is_Exception e then (Inr False, s1) else (Inl e, s1))
                    | WriteFails e part \<Rightarrow>
                        (if is_Exception e
                         then (Inr False, s1\<lparr>files := (files s)(file_path \<mapsto> part)\<rparr>)
                         else (Inl e, s1\<lparr>files := (files s)(file_path \<mapsto> part)\<rparr>))
                    | Written \<Rightarrow>
                        (Inr True, s1\<lparr>files := (files s)(file_path \<mapsto> content resp)\<rparr>))))"
  by (simp add: download_image_def download_image_try_def raise_for_status_def Let_def
           split: sum.splits option.splits write_outcome.splits)

lemma download_image_frame:
  assumes "download_image E img_url file_path s = (r, s')"
  shows "driver s' = driver s" and "dirs s' = dirs s" and "quits s' = quits s"
    and "fetched s' = fetched s @ [img_url]"
    and "files s' = files s \<or> (\<exists>d. files s' = (files s)(file_path \<mapsto> d))"
  using assms
  by (auto simp: download_image_cases Let_def split: sum.splits if_splits write_outcome.splits)

text \<open>
  C10. For every HTTP response that carries no \<^verbatim>\<open>content-type\<close> header at all,
  \<^verbatim>\<open>download_image\<close> returns \<^verbatim>\<open>False\<close> and writes no file: the only change is that the
  URL has been requested. (The absent header is read as the empty string; a response
  with an error status fails earlier, with the same result.)
\<close>

theorem download_image_no_content_type:
  assumes "requests_get E img_url = Inr resp" and "headers resp ''content-type'' = None"
  shows "download_image E img_url file_path s = (Inr False, s\<lparr>fetched := fetched s @ [img_url]\<rparr>)"
proof -
  have "headers_get (headers resp) ''content-type'' '''' = ''''"
    using assms(2) by (simp add: headers_get_def lower_content_type)
  then have "\<not> str_contains (lower (headers_get (headers resp) ''content-type'' '''')) ''image''"
    by (simp add: lower_def)
  then show ?thesis
    using assms(1) by (simp add: download_image_cases Let_def)
qed

text \<open>
  C5. For every response whose \<^verbatim>\<open>content-type\<close> header, lower-cased, does not contain
  \<^verbatim>\<open>image\<close>, \<^verbatim>\<open>download_image\<close> returns \<^verbatim>\<open>False\<close> and leaves the files as they were. The
  files change only when the response passed the status check and its content type
  contains \<^verbatim>\<open>image\<close>. When \<^verbatim>\<open>download_image\<close> returns \<^verbatim>\<open>True\<close>, the destination path
  holds the response body whatever was stored there before.
\<close>

theorem download_image_requires_image_content_type:
  "(requests_get E img_url = Inr resp
      \<and> \<not> str_contains (lower (headers_get (headers resp) ''content-type'' '''')) ''image''
      \<longrightarrow> download_image E img_url file_path s
            = (Inr False, s\<lparr>fetched := fetched s @ [img_url]\<rparr>))
   \<and> (files (snd (download_image E img_url file_path s)) \<noteq> files s
      \<longrightarrow> (\<exists>resp. requests_get E img_url = Inr resp \<and> raise_for_status resp = None
             \<and> str_contains (lower (headers_get (headers resp) ''content-type'' '''')) ''image''))
   \<and> (fst (download_image E img_url file_path s) = Inr True
      \<longrightarrow> (\<exists>resp. requests_get E img_url = Inr resp
             \<and> str_contains (lower (headers_get (headers resp) ''content-type'' '''')) ''image''
             \<and> files (snd (download_image E img_url file_path s))
                 = (files s)(file_path \<mapsto> content resp)))"
  by (auto simp: download_image_cases raise_for_status_def Let_def
           split: sum.splits if_splits write_outcome.splits)

lemma written_refl: "written s s = {}"
  by (simp add: written_def)

lemma written_trans: "written s s'' \<subseteq> written s s' \<union> written s' s''"
  by (auto simp: written_def)

lemma download_image_True_iff:
  "fst (download_image E img_url file_path s) = Inr True \<longleftrightarrow> download_succeeds E img_url file_path"
  by (auto simp: download_image_cases download_succeeds_def raise_for_status_def Let_def
           split: sum.splits if_splits write_outcome.splits)

lemma download_image_True_dom:
  "download_image E img_url file_path s = (Inr True, s') \<Longrightarrow> file_path \<in> dom (files s')"
  by (auto simp: download_image_cases Let_def split: sum.splits if_splits write_outcome.splits)

lemma download_image_written:
  "download_image E img_url file_path s = (r, s') \<Longrightarrow> written s s' \<subseteq> {file_path}"
  by (auto simp: download_image_cases written_def Let_def
           split: sum.splits if_splits write_outcome.splits)

lemma download_image_dom_mono:
  "download_image E img_url file_path s = (r, s') \<Longrightarrow> dom (files s) \<subseteq> dom (files s')"
  by (auto simp: download_image_cases Let_def split: sum.splits if_splits write_outcome.splits)

lemma download_image_not_Exception:
  "fst (download_image E img_url file_path s) \<noteq> Inl (Exception n)"
  by (auto simp: download_image_def split: sum.splits prod.splits)

lemma process_image_frame:
  assumes "process_image E food_name folder_path i img_url s = (r, s')"
  shows "driver s' = driver s" and "dirs s' = dirs s" and "quits s' = quits s"
    and "dom (files s) \<subseteq> dom (files s')"
  using assms download_image_frame [of E img_url _ s r s'] download_image_dom_mono [of E img_url _ s r s']
  by (auto simp: process_image_def split: sum.splits)


lemma process_image_written:
  assumes "process_image E food_name folder_path i img_url s = (r, s')"
    and "fp \<in> written s s'"
  shows "\<exists>p. lib_urlparse E img_url = Inr p \<and> fp = path_join folder_path (file_name_of food_name i p)"
proof (cases "lib_urlparse E img_url")
  case (Inl e)
  with assms(1) have "s' = s" by (simp add: process_image_def)
  with assms(2) show ?thesis by (simp add: written_refl)
next
  case (Inr p)
  from Inr assms(1)
  have "download_image E img_url (path_join folder_path (file_name_of food_name i p)) s = (r, s')"
    by (simp add: process_image_def)
  from download_image_written [OF this] assms(2) Inr show ?thesis by auto
qed

lemma download_loop_frame:
  "download_loop E food_name folder_path ps c s = (r, s') \<Longrightarrow>
     driver s' = driver s \<and> dirs s' = dirs s \<and> quits s' = quits s \<and> dom (files s) \<subseteq> dom (files s')"
proof (induction ps arbitrary: c s)
  case Nil
  then show ?case by simp
next
  case (Cons a ps)
  obtain i u where a: "a = (i, u)" by (cases a)
  obtain r1 s1 where p: "process_image E food_name folder_path i u s = (r1, s1)"
    by (cases "process_image E food_name folder_path i u s")
  note f = process_image_frame [OF p]
  show ?case
  proof (cases "\<exists>c'. download_loop E food_name folder_path ps c' s1 = (r, s')")
    case True
    then obtain c' where "download_loop E food_name folder_path ps c' s1 = (r, s')" ..
    from Cons.IH [OF this] f show ?thesis by (simp; blast)
  next
    case False
    with Cons.prems a p have "s' = s1"
      by (auto split: sum.splits if_splits)
    with f show ?thesis by simp
  qed
qed

section \<open>The download loop: properties\<close>

lemma download_loop_step:
  assumes "download_loop E food_name folder_path ((i, u) # ps) c s = (r, s')"
    and "process_image E food_name folder_path i u s = (r1, s1)"
  shows "(\<exists>c'. download_loop E food_name folder_path ps c' s1 = (r, s'))
         \<or> (s' = s1 \<and> r = Inl KeyboardInterrupt)"
proof (cases r1)
  case (Inl e)
  with assms show ?thesis by (cases e) auto
next
  case (Inr ok)
  with assms show ?thesis by auto
qed


lemma download_loop_written:
  "download_loop E food_name folder_path ps c s = (r, s') \<Longrightarrow> fp \<in> written s s' \<Longrightarrow>
     \<exists>i u p. (i, u) \<in> set ps \<and> lib_urlparse E u = Inr p
             \<and> fp = path_join folder_path (file_name_of food_name i p)"
proof (induction ps arbitrary: c s)
  case Nil
  then show ?case by (simp add: written_refl)
next
  case (Cons a ps)
  obtain i u where a: "a = (i, u)" by (cases a)
  obtain r1 s1 where p: "process_image E food_name folder_path i u s = (r1, s1)"
    by (cases "process_image E food_name folder_path i u s")
  from download_loop_step [OF Cons.prems(1) [unfolded a] p]
  have "fp \<in> written s s1 \<or> (\<exists>c'. download_loop E food_name folder_path ps c' s1 = (r, s') \<and> fp \<in> written s1 s')"
    using Cons.prems(2) written_trans [of s s' s1] by auto
  then show ?case
  proof
    assume "fp \<in> written s s1"
    from process_image_written [OF p this] show ?thesis by (auto simp: a)
  next
    assume "\<exists>c'. download_loop E food_name folder_path ps c' s1 = (r, s') \<and> fp \<in> written s1 s'"
    then obtain c' where "download_loop E food_name folder_path ps c' s1 = (r, s')" "fp \<in> written s1 s'"
      by blast
    from Cons.IH [OF this] show ?thesis by auto
  qed
qed

lemma process_image_success_dom:
  assumes "process_image E food_name folder_path i u s = (r1, s1)"
    and "lib_urlparse E u = Inr p"
    and "download_succeeds E u (path_join folder_path (file_name_of food_name i p))"
  shows "r1 = Inr True \<and> path_join folder_path (file_name_of food_name i p) \<in> dom (files s1)"
proof -
  let ?fp = "path_join folder_path (file_name_of food_name i p)"
  have d: "download_image E u ?fp s = (r1, s1)"
    using assms(1,2) by (simp add: process_image_def)
  have "fst (download_image E u ?fp s) = Inr True"
    using assms(3) by (simp add: download_image_True_iff)
  with d have "r1 = Inr True" by simp
  with d download_image_True_dom [of E u ?fp s s1] show ?thesis by simp
qed

lemma download_loop_success_dom:
  "download_loop E food_name folder_path ps c s = (Inr n, s') \<Longrightarrow> (i, u) \<in> set ps \<Longrightarrow>
   lib_urlparse E u = Inr p \<Longrightarrow>
   download_succeeds E u (path_join folder_path (file_name_of food_name i p)) \<Longrightarrow>
     path_join folder_path (file_name_of food_name i p) \<in> dom (files s')"
proof (induction ps arbitrary: c s)
  case Nil
  then show ?case by simp
next
  case (Cons a ps)
  obtain j v where a: "a = (j, v)" by (cases a)
  obtain r1 s1 where p: "process_image E food_name folder_path j v s = (r1, s1)"
    by (cases "process_image E food_name folder_path j v s")
  from download_loop_step [OF Cons.prems(1) [unfolded a] p]
  obtain c' where l: "download_loop E food_name folder_path ps c' s1 = (Inr n, s')" by auto
  show ?case
  proof (cases "(i, u) = (j, v)")
    case True
    with process_image_success_dom [OF p] Cons.prems(3,4)
    have "path_join folder_path (file_name_of food_name i p) \<in> dom (files s1)" by simp
    with download_loop_frame [OF l] show ?thesis by blast
  next
    case False
    with Cons.prems(2) a have "(i, u) \<in> set ps" by auto
    from Cons.IH [OF l this Cons.prems(3,4)] show ?thesis .
  qed
qed

section \<open>Scraping one food: properties\<close>

lemma get_image_urls_driver:
  "driver s' = driver s \<Longrightarrow> get_image_urls E s' query = get_image_urls E s query"
  by (simp add: get_image_urls_def get_image_urls_try_def)

lemma get_image_urls_not_Exception: "get_image_urls E s query \<noteq> Inl (Exception n)"
  by (auto simp: get_image_urls_def split: sum.splits)

lemma create_folder_cases:
  "create_folder E self food_name s =
     (case fs_makedirs E (path_join (base_folder self) food_name) of
        Some e \<Rightarrow> (Inl e, s)
      | None \<Rightarrow> (Inr (path_join (base_folder self) food_name),
                 s\<lparr>dirs := insert (path_join (base_folder self) food_name) (dirs s)\<rparr>))"
  by (simp add: create_folder_def Let_def)

lemma scrape_food_images_makedirs_fails:
  "fs_makedirs E (path_join (base_folder self) food_name) = Some e \<Longrightarrow>
     scrape_food_images E self food_name s = (Inl e, s)"
  by (simp add: scrape_food_images_def create_folder_cases)

lemma scrape_food_images_cases:
  assumes "fs_makedirs E (path_join (base_folder self) food_name) = None"
  shows "scrape_food_images E self food_name s =
     (let folder_path = path_join (base_folder self) food_name;
          s1 = s\<lparr>dirs := insert folder_path (dirs s)\<rparr>
      in case get_image_urls E s food_name of
           Inl e \<Rightarrow> (Inl e, s1)
         | Inr image_urls \<Rightarrow>
             (if image_urls = [] then (Inr (), s1)
              else (case download_loop E food_name folder_path
                           (enumerate 0 (py_slice_to image_urls (images_per_food self))) 0 s1 of
                      (Inl e, s2) \<Rightarrow> (Inl e, s2)
                    | (Inr downloaded_count, s2) \<Rightarrow> (Inr (), s2))))"
proof -
  have "get_image_urls E (s\<lparr>dirs := insert (path_join (base_folder self) food_name) (dirs s)\<rparr>) food_name
        = get_image_urls E s food_name"
    by (rule get_image_urls_driver) simp
  then show ?thesis
    using assms by (simp add: scrape_food_images_def create_folder_cases Let_def)
qed

text \<open>What a run of \<^verbatim>\<open>scrape_food_images\<close> that reaches the download loop is.\<close>

lemma scrape_food_images_loop:
  assumes "scrape_food_images E self food_name s = (r, s')"
  shows "(s' = s \<and> (\<exists>e. r = Inl e))
       \<or> (s' = s\<lparr>dirs := insert (path_join (base_folder self) food_name) (dirs s)\<rparr>
           \<and> fs_makedirs E (path_join (base_folder self) food_name) = None
           \<and> (get_image_urls E s food_name = Inr [] \<and> r = Inr ()
              \<or> (\<exists>e. get_image_urls E s food_name = Inl e \<and> r = Inl e)))
       \<or> (\<exists>image_urls r2.
             fs_makedirs E (path_join (base_folder self) food_name) = None
           \<and> get_image_urls E s food_name = Inr image_urls
           \<and> download_loop E food_name (path_join (base_folder self) food_name)
                (enumerate 0 (py_slice_to image_urls (images_per_food self))) 0
                (s\<lparr>dirs := insert (path_join (base_folder self) food_name) (dirs s)\<rparr>) = (r2, s')
           \<and> (r = Inr () \<longleftrightarrow> (\<exists>n. r2 = Inr n)))"
proof (cases "fs_makedirs E (path_join (base_folder self) food_name)")
  case (Some e)
  with assms show ?thesis by (auto simp: scrape_food_images_makedirs_fails)
next
  case None
  show ?thesis
    using assms unfolding scrape_food_images_cases [OF None] Let_def
    by (auto simp: None split: sum.splits if_splits prod.splits)
qed

lemma written_dirs_update [simp]:
  "written (s\<lparr>dirs := d\<rparr>) s' = written s s'" "written s (s\<lparr>dirs := d\<rparr>) = {}"
  by (simp_all add: written_def)

lemma scrape_food_images_frame:
  assumes "scrape_food_images E self food_name s = (r, s')"
  shows "driver s' = driver s" and "quits s' = quits s"
  using scrape_food_images_loop [OF assms] download_loop_frame
  by (fastforce)+

text \<open>
  C9. For every term whose folder can be created and whose URL collection yields the
  empty sequence, \<^verbatim>\<open>scrape_food_images\<close> returns normally, writes no file and requests
  no URL, and the term's folder exists afterwards: the folder is created before the
  collection is attempted, and nothing else has changed.
\<close>

theorem scrape_food_images_no_urls:
  assumes "fs_makedirs E (path_join (base_folder self) food_name) = None"
    and "get_image_urls E s food_name = Inr []"
  shows "scrape_food_images E self food_name s
           = (Inr (), s\<lparr>dirs := insert (path_join (base_folder self) food_name) (dirs s)\<rparr>)
         \<and> files (snd (scrape_food_images E self food_name s)) = files s
         \<and> fetched (snd (scrape_food_images E self food_name s)) = fetched s
         \<and> path_join (base_folder self) food_name \<in> dirs (snd (scrape_food_images E self food_name s))"
  using assms by (simp add: scrape_food_images_cases Let_def)


text \<open>
  C1, amended. The numeric suffix of a written file is the position of its URL among the
  attempted URLs, counted from 1, whether or not earlier attempts failed: every file that
  \<^verbatim>\<open>scrape_food_images\<close> writes or changes is \<^verbatim>\<open>{term}_{i+1}{ext}\<close> in the term's folder
  for some position \<open>i\<close> of the attempted list, with the extension derived from the URL at
  that position; and when the run completes, every position whose download succeeds has
  its file \<^verbatim>\<open>{term}_{i+1}{ext}\<close> on disk.
\<close>

theorem scrape_food_images_names_by_position:
  assumes "fs_makedirs E (path_join (base_folder self) food_name) = None"
    and "get_image_urls E s food_name = Inr image_urls"
    and "scrape_food_images E self food_name s = (r, s')"
  shows "(\<forall>fp \<in> written s s'.
            \<exists>i p. i < length (py_slice_to image_urls (images_per_food self))
                \<and> lib_urlparse E (py_slice_to image_urls (images_per_food self) ! i) = Inr p
                \<and> fp = path_join (path_join (base_folder self) food_name)
                         (food_name @ ''_'' @ str_of_nat (i + 1) @ file_extension_of p))
       \<and> (r = Inr () \<longrightarrow>
            (\<forall>i p. i < length (py_slice_to image_urls (images_per_food self))
                \<and> lib_urlparse E (py_slice_to image_urls (images_per_food self) ! i) = Inr p
                \<and> download_succeeds E (py_slice_to image_urls (images_per_food self) ! i)
                     (path_join (path_join (base_folder self) food_name)
                        (food_name @ ''_'' @ str_of_nat (i + 1) @ file_extension_of p))
              \<longrightarrow> path_join (path_join (base_folder self) food_name)
                     (food_name @ ''_'' @ str_of_nat (i + 1) @ file_extension_of p)
                   \<in> dom (files s')))"
proof -
  let ?att = "py_slice_to image_urls (images_per_food self)"
  let ?folder = "path_join (base_folder self) food_name"
  let ?s1 = "s\<lparr>dirs := insert ?folder (dirs s)\<rparr>"
  have mem: "\<And>i u. (i, u) \<in> set (enumerate 0 ?att) \<longleftrightarrow> i < length ?att \<and> u = ?att ! i"
    by (auto simp: in_set_enumerate_eq)
  show ?thesis
  proof (cases "image_urls = []")
    case True
    with assms have "s' = ?s1"
      by (simp add: scrape_food_images_cases Let_def)
    with True show ?thesis by (simp add: py_slice_to_def)
  next
    case False
    obtain r2 where l: "download_loop E food_name ?folder (enumerate 0 ?att) 0 ?s1 = (r2, s')"
      and r: "r = Inr () \<longleftrightarrow> (\<exists>n. r2 = Inr n)"
      using assms False unfolding scrape_food_images_cases [OF assms(1)] Let_def
      by (auto split: sum.splits prod.splits)
    have one: "\<forall>fp \<in> written s s'.
            \<exists>i p. i < length ?att \<and> lib_urlparse E (?att ! i) = Inr p
                \<and> fp = path_join ?folder (food_name @ ''_'' @ str_of_nat (i + 1) @ file_extension_of p)"
    proof
      fix fp assume "fp \<in> written s s'"
      then have "fp \<in> written ?s1 s'" by simp
      from download_loop_written [OF l this] show "\<exists>i p. i < length ?att \<and> lib_urlparse E (?att ! i) = Inr p
                \<and> fp = path_join ?folder (food_name @ ''_'' @ str_of_nat (i + 1) @ file_extension_of p)"
        unfolding mem file_name_of_def by blast
    qed
    have two: "r = Inr () \<longrightarrow>
            (\<forall>i p. i < length ?att \<and> lib_urlparse E (?att ! i) = Inr p
                \<and> download_succeeds E (?att ! i)
                     (path_join ?folder (food_name @ ''_'' @ str_of_nat (i + 1) @ file_extension_of p))
              \<longrightarrow> path_join ?folder (food_name @ ''_'' @ str_of_nat (i + 1) @ file_extension_of p)
                   \<in> dom (files s'))"
    proof (intro impI allI)
      fix i p
      assume "r = Inr ()"
      with r obtain n where n: "r2 = Inr n" by blast
      assume h: "i < length ?att \<and> lib_urlparse E (?att ! i) = Inr p
                \<and> download_succeeds E (?att ! i)
                     (path_join ?folder (food_name @ ''_'' @ str_of_nat (i + 1) @ file_extension_of p))"
      then have m: "(i, ?att ! i) \<in> set (enumerate 0 ?att)" by (simp add: mem)
      from download_loop_success_dom [OF l [unfolded n] m, of p] h
      show "path_join ?folder (food_name @ ''_'' @ str_of_nat (i + 1) @ file_extension_of p)
                   \<in> dom (files s')"
        by (simp add: file_name_of_def)
    qed
    from one two show ?thesis by blast
  qed
qed

section \<open>The URL parser: the query does not reach the path\<close>

lemma takeWhile_stop: "\<not> P y \<Longrightarrow> takeWhile P (xs @ y # ys) = takeWhile P xs"
  by (induction xs) auto

lemma length_takeWhile_less: "x \<in> set xs \<Longrightarrow> \<not> P x \<Longrightarrow> length (takeWhile P xs) < length xs"
  by (induction xs) auto

lemma question_not_scheme_char: "CHR ''?'' \<notin> scheme_chars"
  by (simp add: scheme_chars_def)

lemma split_scheme_query:
  assumes "CHR ''?'' \<notin> set u"
  shows "split_scheme (u @ CHR ''?'' # q)
         = (fst (split_scheme u), snd (split_scheme u) @ CHR ''?'' # q)"
proof (cases "CHR '':'' \<in> set u")
  case True
  then have u: "u \<noteq> []" by auto
  have t: "takeWhile (\<lambda>x. x \<noteq> CHR '':'') (u @ CHR ''?'' # q) = takeWhile (\<lambda>x. x \<noteq> CHR '':'') u"
    using True by (simp add: takeWhile_append1)
  have l: "length (takeWhile (\<lambda>x. x \<noteq> CHR '':'') u) < length u"
    using True by (rule length_takeWhile_less) simp
  show ?thesis
    using True u l by (simp add: split_scheme_def t Let_def)
next
  case False
  have "takeWhile (\<lambda>x. x \<noteq> CHR '':'') (u @ CHR ''?'' # q)
      = u @ takeWhile (\<lambda>x. x \<noteq> CHR '':'') (CHR ''?'' # q)"
    by (rule takeWhile_append2) (use False in auto)
  then have t: "takeWhile (\<lambda>x. x \<noteq> CHR '':'') (u @ CHR ''?'' # q)
      = u @ CHR ''?'' # takeWhile (\<lambda>x. x \<noteq> CHR '':'') q"
    by simp
  show ?thesis
    using False question_not_scheme_char by (simp add: split_scheme_def t Let_def)
qed

lemma split_scheme_rest_subset: "set (snd (split_scheme u)) \<subseteq> set u"
  using set_drop_subset [of _ u] by (auto simp: split_scheme_def Let_def)

lemma take2_query:
  "CHR ''?'' \<notin> set url1 \<Longrightarrow> take 2 (url1 @ CHR ''?'' # q) = ''//'' \<longleftrightarrow> take 2 url1 = ''//''"
  by (cases url1; cases "tl url1") auto

lemma netloc_step_query:
  assumes "CHR ''?'' \<notin> set url1"
  shows "netloc_step (url1 @ CHR ''?'' # q)
         = (fst (netloc_step url1), snd (netloc_step url1) @ CHR ''?'' # q)"
proof (cases "take 2 url1 = ''//''")
  case True
  then have len: "2 \<le> length url1" by (cases url1; cases "tl url1") auto
  have d: "drop 2 (url1 @ CHR ''?'' # q) = drop 2 url1 @ CHR ''?'' # q"
    using len by simp
  have t: "takeWhile (\<lambda>x. x \<notin> set ''/?#'') (drop 2 url1 @ CHR ''?'' # q)
      = takeWhile (\<lambda>x. x \<notin> set ''/?#'') (drop 2 url1)"
    by (rule takeWhile_stop) simp
  have le: "length (takeWhile (\<lambda>x. x \<notin> set ''/?#'') (drop 2 url1)) \<le> length (drop 2 url1)"
    by (rule length_takeWhile_le)
  have s: "splitnetloc (url1 @ CHR ''?'' # q)
      = (fst (splitnetloc url1), snd (splitnetloc url1) @ CHR ''?'' # q)"
    unfolding splitnetloc_def Let_def d t fst_conv snd_conv
    using le by (simp only: drop_append) simp
  have "take 2 (url1 @ CHR ''?'' # q) = ''//''"
    using True take2_query [OF assms, of q] by simp
  then show ?thesis
    using True by (simp add: netloc_step_def s)
next
  case False
  then show ?thesis
    using take2_query [OF assms, of q] by (simp add: netloc_step_def)
qed

lemma netloc_step_rest_subset: "set (snd (netloc_step url1)) \<subseteq> set url1"
proof -
  have "set (drop n (drop 2 url1)) \<subseteq> set url1" for n
    using set_drop_subset [of n "drop 2 url1"] set_drop_subset [of 2 url1] by blast
  then show ?thesis
    by (auto simp: netloc_step_def splitnetloc_def Let_def)
qed

lemma path_step_plain:
  "CHR ''?'' \<notin> set url2 \<Longrightarrow> CHR ''#'' \<notin> set url2 \<Longrightarrow> path_step url2 = url2"
  by (simp add: path_step_def)

lemma path_step_query:
  assumes "CHR ''?'' \<notin> set url2" and "CHR ''#'' \<notin> set url2"
  shows "path_step (url2 @ CHR ''?'' # q) = url2"
proof -
  have "takeWhile (\<lambda>x. x \<noteq> CHR ''#'') (url2 @ CHR ''?'' # q)
      = url2 @ takeWhile (\<lambda>x. x \<noteq> CHR ''#'') (CHR ''?'' # q)"
    by (rule takeWhile_append2) (use assms(2) in auto)
  then have a: "takeWhile (\<lambda>x. x \<noteq> CHR ''#'') (url2 @ CHR ''?'' # q)
      = url2 @ CHR ''?'' # takeWhile (\<lambda>x. x \<noteq> CHR ''#'') q"
    by simp
  have "takeWhile (\<lambda>x. x \<noteq> CHR ''?'') (url2 @ CHR ''?'' # r)
      = url2 @ takeWhile (\<lambda>x. x \<noteq> CHR ''?'') (CHR ''?'' # r)" for r
    by (rule takeWhile_append2) (use assms(1) in auto)
  then have b: "takeWhile (\<lambda>x. x \<noteq> CHR ''?'') (url2 @ CHR ''?'' # r) = url2" for r
    by simp
  show ?thesis
    by (simp add: path_step_def split_once_def a b)
qed

lemma urlparse_path_unfold:
  "path (urlparse url0) =
     (let sch = fst (split_scheme url0);
          url4 = path_step (snd (netloc_step (snd (split_scheme url0))))
      in if sch \<in> set uses_params \<and> CHR '';'' \<in> set url4 then fst (splitparams url4) else url4)"
  by (simp add: urlparse_def netloc_step_def path_step_def Let_def split_def)

lemma urlparse_path_ignores_query:
  assumes "CHR ''?'' \<notin> set u" and "CHR ''#'' \<notin> set u"
  shows "path (urlparse (u @ CHR ''?'' # q)) = path (urlparse u)"
proof -
  let ?url1 = "snd (split_scheme u)"
  let ?url2 = "snd (netloc_step ?url1)"
  have s1: "CHR ''?'' \<notin> set ?url1" "CHR ''#'' \<notin> set ?url1"
    using assms split_scheme_rest_subset [of u] by auto
  have s2: "CHR ''?'' \<notin> set ?url2" "CHR ''#'' \<notin> set ?url2"
    using s1 netloc_step_rest_subset [of ?url1] by auto
  show ?thesis
    unfolding urlparse_path_unfold
    by (simp add: split_scheme_query [OF assms(1)] netloc_step_query [OF s1(1)]
          path_step_query [OF s2] path_step_plain [OF s2])
qed

section \<open>Sessions, collection and extensions: properties\<close>

lemma foods_loop_frame:
  "foods_loop E self ps s = (r, s') \<Longrightarrow> driver s' = driver s \<and> quits s' = quits s"
proof (induction ps arbitrary: s)
  case Nil
  then show ?case by simp
next
  case (Cons a ps)
  obtain i food where a: "a = (i, food)" by (cases a)
  obtain r1 s1 where p: "scrape_food_images E self food s = (r1, s1)"
    by (cases "scrape_food_images E self food s")
  note f = scrape_food_images_frame [OF p]
  show ?case
  proof (cases "foods_loop E self ps s1 = (r, s')")
    case True
    from Cons.IH [OF this] f show ?thesis by simp
  next
    case False
    with Cons.prems a p have "s' = s1"
      by (auto split: sum.splits if_splits option.splits)
    with f show ?thesis by simp
  qed
qed

lemma quit_driver_Some:
  "driver s = Some h \<Longrightarrow> quit_driver E s = (drv_quit E h, s\<lparr>quits := quits s @ [h]\<rparr>)"
  by (simp add: quit_driver_def)

lemma scrape_all_foods_quits:
  assumes "fs_makedirs E (base_folder self) = None"
    and "chrome_launch E (chrome_options self) = Inr h"
  shows "quits (snd (scrape_all_foods E self s)) = quits s @ [h]"
proof -
  let ?s1 = "s\<lparr>dirs := insert (base_folder self) (dirs s), driver := Some h\<rparr>"
  obtain r s2 where l: "foods_loop E self (enumerate 1 (myanmar_foods self)) ?s1 = (r, s2)"
    by (cases "foods_loop E self (enumerate 1 (myanmar_foods self)) ?s1")
  from foods_loop_frame [OF l] have d: "driver s2 = Some h" and q: "quits s2 = quits s" by simp_all
  show ?thesis
    using assms l by (simp add: scrape_all_foods_def setup_driver_def quit_driver_Some [OF d] q
        split: option.splits)
qed

lemma scrape_single_food_quits:
  assumes "fs_makedirs E (base_folder self) = None"
    and "chrome_launch E (chrome_options self) = Inr h"
  shows "quits (snd (scrape_single_food E self food_name s)) = quits s @ [h]"
proof -
  let ?s1 = "s\<lparr>dirs := insert (base_folder self) (dirs s), driver := Some h\<rparr>"
  obtain r s2 where l: "scrape_food_images E self food_name ?s1 = (r, s2)"
    by (cases "scrape_food_images E self food_name ?s1")
  from scrape_food_images_frame [OF l] have d: "driver s2 = Some h" and q: "quits s2 = quits s"
    by simp_all
  show ?thesis
    using assms l by (simp add: scrape_single_food_def setup_driver_def quit_driver_Some [OF d] q
        split: option.splits sum.splits)
qed

lemma launch_failure_propagates:
  assumes "fs_makedirs E (base_folder self) = None"
    and "chrome_launch E (chrome_options self) = Inl e"
  shows "scrape_all_foods E self s = (Inl e, s\<lparr>dirs := insert (base_folder self) (dirs s)\<rparr>)"
    and "scrape_single_food E self food_name s
           = (Inl e, s\<lparr>dirs := insert (base_folder self) (dirs s)\<rparr>)"
  using assms by (simp_all add: scrape_all_foods_def scrape_single_food_def setup_driver_def)

text \<open>
  C7. In every run of \<^verbatim>\<open>scrape_all_foods\<close> and of \<^verbatim>\<open>scrape_single_food\<close>: if the
  browser launches, \<^verbatim>\<open>quit()\<close> is invoked on that session exactly once, whatever the
  environment does afterwards (normal completion, an exception caught on the way, an
  interrupt); if the launch fails, its exception leaves the run at once and no
  \<^verbatim>\<open>quit()\<close> is invoked. The launch is reached when the base folder has been
  created; if that fails, its exception leaves the run before any launch.
\<close>

theorem browser_session_closed_exactly_once:
  "(fs_makedirs E (base_folder self) = None \<and> chrome_launch E (chrome_options self) = Inr h \<longrightarrow>
      quits (snd (scrape_all_foods E self s)) = quits s @ [h]
    \<and> quits (snd (scrape_single_food E self food_name s)) = quits s @ [h])
   \<and> (fs_makedirs E (base_folder self) = None \<and> chrome_launch E (chrome_options self) = Inl e \<longrightarrow>
      scrape_all_foods E self s = (Inl e, s\<lparr>dirs := insert (base_folder self) (dirs s)\<rparr>)
    \<and> scrape_single_food E self food_name s
        = (Inl e, s\<lparr>dirs := insert (base_folder self) (dirs s)\<rparr>))
   \<and> (fs_makedirs E (base_folder self) = Some e \<longrightarrow>
      scrape_all_foods E self s = (Inl e, s)
    \<and> scrape_single_food E self food_name s = (Inl e, s))"
proof -
  have "fs_makedirs E (base_folder self) = Some e \<longrightarrow>
      scrape_all_foods E self s = (Inl e, s)
    \<and> scrape_single_food E self food_name s = (Inl e, s)"
    by (simp add: scrape_all_foods_def scrape_single_food_def)
  then show ?thesis
    using scrape_all_foods_quits scrape_single_food_quits launch_failure_propagates
    by blast
qed

text \<open>
  C8. For every image element whose two attributes can be read, \<^verbatim>\<open>get_image_urls\<close>
  selects \<^verbatim>\<open>src\<close> whenever \<^verbatim>\<open>src\<close> is present, also when \<^verbatim>\<open>data-src\<close> is present too, and
  selects \<^verbatim>\<open>data-src\<close> when \<^verbatim>\<open>src\<close> is not; the element contributes what the filter of
  lines 146 to 149 keeps of the selected value, and an element with neither attribute
  contributes nothing. An attribute is present when its value is a non-empty string,
  which is the test that \<^verbatim>\<open>src or data_src\<close> applies.
\<close>

theorem collect_image_urls_prefers_src:
  assumes "img ''src'' = Inr src" and "img ''data-src'' = Inr data_src"
  shows "(truthy src \<longrightarrow> url_to_use src data_src = src)
       \<and> (\<not> truthy src \<longrightarrow> url_to_use src data_src = data_src)
       \<and> collect_image_urls (img # rest) image_urls
           = collect_image_urls rest (image_urls @ keep_url (url_to_use src data_src))
       \<and> (\<not> truthy src \<and> \<not> truthy data_src \<longrightarrow>
            collect_image_urls (img # rest) image_urls = collect_image_urls rest image_urls)"
proof -
  have "\<not> truthy u \<Longrightarrow> keep_url u = []" for u
    by (cases u) auto
  then show ?thesis
    using assms by (auto simp: url_to_use_def)
qed

lemma download_loop_continues:
  assumes "fst (process_image E food_name folder_path i img_url s) = Inr False
           \<or> fst (process_image E food_name folder_path i img_url s) = Inl (Exception n)"
  shows "download_loop E food_name folder_path ((i, img_url) # rest) c s
         = download_loop E food_name folder_path rest c
             (snd (process_image E food_name folder_path i img_url s))"
  using assms by (cases "process_image E food_name folder_path i img_url s") auto

lemma get_image_urls_navigation_error:
  "driver s = Some h \<Longrightarrow> drv_get E (search_url query) = Some (Exception n) \<Longrightarrow>
     get_image_urls E s query = Inr []"
  by (simp add: get_image_urls_def get_image_urls_try_def)

lemma download_image_request_error:
  "requests_get E img_url = Inl (Exception n) \<Longrightarrow>
     download_image E img_url file_path s = (Inr False, s\<lparr>fetched := fetched s @ [img_url]\<rparr>)"
  by (simp add: download_image_cases)

lemma download_image_bad_status:
  "requests_get E img_url = Inr resp \<Longrightarrow> 400 \<le> status_code resp \<Longrightarrow> status_code resp < 600 \<Longrightarrow>
     download_image E img_url file_path s = (Inr False, s\<lparr>fetched := fetched s @ [img_url]\<rparr>)"
  by (simp add: download_image_cases)

text \<open>
  C6. Every exception of class \<^verbatim>\<open>Exception\<close> that arises during URL collection or during
  a single download is caught: \<^verbatim>\<open>get_image_urls\<close> then returns the empty list (so, for
  instance, when the navigation fails) and never raises such an exception;
  \<^verbatim>\<open>download_image\<close> then returns \<^verbatim>\<open>False\<close> (so when the request fails, by a network error
  or a timeout, and when the status is 400 to 599) and never raises such an exception;
  and after a URL whose processing returned \<^verbatim>\<open>False\<close> or raised such an exception, the
  loop of \<^verbatim>\<open>scrape_food_images\<close> goes on with the remaining URLs and the same count.
\<close>

theorem exceptions_are_caught:
  "(get_image_urls_try E s query = Inl (Exception n) \<longrightarrow> get_image_urls E s query = Inr [])
   \<and> get_image_urls E s query \<noteq> Inl (Exception n)
   \<and> (driver s = Some h \<and> drv_get E (search_url query) = Some (Exception n)
        \<longrightarrow> get_image_urls E s query = Inr [])
   \<and> (fst (download_image_try E img_url file_path s) = Inl (Exception n)
        \<longrightarrow> fst (download_image E img_url file_path s) = Inr False)
   \<and> fst (download_image E img_url file_path s) \<noteq> Inl (Exception n)
   \<and> (requests_get E img_url = Inl (Exception n)
        \<longrightarrow> download_image E img_url file_path s
            = (Inr False, s\<lparr>fetched := fetched s @ [img_url]\<rparr>))
   \<and> (requests_get E img_url = Inr resp \<and> 400 \<le> status_code resp \<and> status_code resp < 600
        \<longrightarrow> download_image E img_url file_path s
            = (Inr False, s\<lparr>fetched := fetched s @ [img_url]\<rparr>))
   \<and> (fst (process_image E food_name folder_path i img_url s) = Inr False
        \<or> fst (process_image E food_name folder_path i img_url s) = Inl (Exception n)
        \<longrightarrow> download_loop E food_name folder_path ((i, img_url) # rest) c s
            = download_loop E food_name folder_path rest c
                (snd (process_image E food_name folder_path i img_url s)))"
proof -
  have a: "get_image_urls_try E s query = Inl (Exception n) \<longrightarrow> get_image_urls E s query = Inr []"
    by (simp add: get_image_urls_def)
  have b: "fst (download_image_try E img_url file_path s) = Inl (Exception n)
        \<longrightarrow> fst (download_image E img_url file_path s) = Inr False"
    by (cases "download_image_try E img_url file_path s") (simp add: download_image_def)
  show ?thesis
    using a b get_image_urls_not_Exception [of E s query n]
      get_image_urls_navigation_error [of s h E query n]
      download_image_not_Exception [of E img_url file_path s n]
      download_image_request_error [of E img_url n file_path s]
      download_image_bad_status [of E img_url resp file_path s]
      download_loop_continues [of E food_name folder_path i img_url s n rest c]
    by blast
qed

text \<open>
  C2, amended. For every URL, the extension of the saved file is the suffix of the URL's
  path whenever that suffix is, letter for letter, one of \<^verbatim>\<open>.jpg\<close>, \<^verbatim>\<open>.jpeg\<close>,
  \<^verbatim>\<open>.png\<close>, \<^verbatim>\<open>.webp\<close>, and is \<^verbatim>\<open>.jpg\<close> otherwise: when the path has no suffix and when
  the suffix is not in the list, which includes a suffix in upper case. The query string
  does not contribute: the extension depends on the parsed path alone, and in the parser
  a query appended to a URL without query and fragment leaves the extension as it is.
\<close>

theorem file_extension_case_sensitive_allow_list:
  "file_extension_of parsed_url =
      (if snd (splitext (path parsed_url)) \<in> {''.jpg'', ''.jpeg'', ''.png'', ''.webp''}
       then snd (splitext (path parsed_url)) else ''.jpg'')
   \<and> file_extension_of (parsed_url\<lparr>query_str := q\<rparr>) = file_extension_of parsed_url
   \<and> (CHR ''?'' \<notin> set u \<and> CHR ''#'' \<notin> set u \<longrightarrow>
        file_extension_of (urlparse (u @ CHR ''?'' # q)) = file_extension_of (urlparse u))
   \<and> (lib_urlparse E img_url = Inr parsed_url \<longrightarrow>
        process_image E food_name folder_path i img_url s
        = download_image E img_url
            (path_join folder_path
               (food_name @ ''_'' @ str_of_nat (i + 1) @ file_extension_of parsed_url)) s)"
proof -
  have "CHR ''?'' \<notin> set u \<and> CHR ''#'' \<notin> set u \<longrightarrow>
        file_extension_of (urlparse (u @ CHR ''?'' # q)) = file_extension_of (urlparse u)"
    by (simp add: file_extension_of_def urlparse_path_ignores_query)
  then show ?thesis
    by (auto simp: file_extension_of_def process_image_def file_name_of_def Let_def)
qed

section \<open>The sample environment evaluated\<close>

lemma scroll_loop_quiet:
  "(\<And>i. drv_execute_script E url i = None) \<Longrightarrow> scroll_loop E url is = None"
  by (induction "is") simp_all

lemma demo_collect:
  "collect_image_urls demo_page [] =
     Inr [''http://img.example/a.jpg'', ''http://img.example/b.PNG?x=1'',
          ''http://img.example/c.png'', ''http://img.example/a.jpg'',
          ''http://img.example/d'', ''http://img.example/e.webp'']"
  by (simp add: demo_page_def demo_img_def url_to_use_def startswith_def)

lemma demo_dedup:
  "dedup_urls [''http://img.example/a.jpg'', ''http://img.example/b.PNG?x=1'',
          ''http://img.example/c.png'', ''http://img.example/a.jpg'',
          ''http://img.example/d'', ''http://img.example/e.webp'']
   = [''http://img.example/a.jpg'', ''http://img.example/b.PNG?x=1'',
          ''http://img.example/c.png'', ''http://img.example/d'', ''http://img.example/e.webp'']"
  by (simp add: dedup_urls_def dict_fromkeys_def dict_keys_def)

lemma demo_urls:
  assumes "driver s = Some h"
    and "E = demo_env \<or> E = demo_env_failing"
  shows "get_image_urls E s query =
     Inr [''http://img.example/a.jpg'', ''http://img.example/b.PNG?x=1'',
          ''http://img.example/c.png'', ''http://img.example/d'', ''http://img.example/e.webp'']"
proof -
  have "scroll_loop E (search_url query) [0..<15] = None"
    using assms(2) by (intro scroll_loop_quiet) (auto simp: demo_env_def demo_env_failing_def)
  moreover have "drv_get E (search_url query) = None" "drv_wait_imgs E (search_url query) = None"
    "drv_find_imgs E (search_url query) = Inr demo_page"
    using assms(2) by (auto simp: demo_env_def demo_env_failing_def)
  ultimately show ?thesis
    using assms(1)
    by (simp add: get_image_urls_def get_image_urls_try_def Let_def demo_collect demo_dedup)
qed

lemma demo_names:
  "file_name_of ''mohinga'' 0 (urlparse ''http://img.example/a.jpg'') = ''mohinga_1.jpg''"
  "file_name_of ''mohinga'' (Suc 0) (urlparse ''http://img.example/b.PNG?x=1'') = ''mohinga_2.jpg''"
  "file_name_of ''mohinga'' (Suc (Suc 0)) (urlparse ''http://img.example/c.png'') = ''mohinga_3.png''"
  "file_name_of ''mohinga'' (Suc (Suc (Suc 0))) (urlparse ''http://img.example/d'') = ''mohinga_4.jpg''"
  "file_name_of ''mohinga'' (Suc (Suc (Suc (Suc 0)))) (urlparse ''http://img.example/e.webp'') = ''mohinga_5.webp''"
  by code_simp+

lemma demo_folder:
  "path_join (base_folder (init_scraper hl n)) ''mohinga'' = ''Myanmar_Food_Images/mohinga''"
  by (simp add: init_scraper_def path_join_def startswith_def)

lemma demo_paths:
  "path_join ''Myanmar_Food_Images/mohinga'' ''mohinga_1.jpg'' = ''Myanmar_Food_Images/mohinga/mohinga_1.jpg''"
  "path_join ''Myanmar_Food_Images/mohinga'' ''mohinga_2.jpg'' = ''Myanmar_Food_Images/mohinga/mohinga_2.jpg''"
  "path_join ''Myanmar_Food_Images/mohinga'' ''mohinga_3.png'' = ''Myanmar_Food_Images/mohinga/mohinga_3.png''"
  "path_join ''Myanmar_Food_Images/mohinga'' ''mohinga_4.jpg'' = ''Myanmar_Food_Images/mohinga/mohinga_4.jpg''"
  "path_join ''Myanmar_Food_Images/mohinga'' ''mohinga_5.webp'' = ''Myanmar_Food_Images/mohinga/mohinga_5.webp''"
  by (simp_all add: path_join_def startswith_def)

lemma demo_content_types:
  "str_contains (lower ''image/jpeg'') ''image''"
  "\<not> str_contains (lower ''text/html'') ''image''"
  by code_simp+

lemma demo_headers_get:
  "headers_get (headers (demo_response code ctype)) ''content-type'' '''' = ctype"
  by (simp add: headers_get_def demo_response_def lower_content_type)

lemma demo_download_ok:
  "download_image demo_env img_url file_path s
     = (Inr True, s\<lparr>fetched := fetched s @ [img_url], files := (files s)(file_path \<mapsto> ''bytes'')\<rparr>)"
  by (simp add: download_image_cases demo_env_def demo_headers_get demo_content_types Let_def)
     (simp add: demo_response_def)

lemma demo_run:
  "scrape_food_images demo_env (init_scraper False 30) ''mohinga'' demo_state
   = (Inr (), demo_state\<lparr>dirs := {''Myanmar_Food_Images/mohinga''},
        fetched := [''http://img.example/a.jpg'', ''http://img.example/b.PNG?x=1'',
          ''http://img.example/c.png'', ''http://img.example/d'', ''http://img.example/e.webp''],
        files := [''Myanmar_Food_Images/mohinga/mohinga_1.jpg'' \<mapsto> ''bytes'',
                  ''Myanmar_Food_Images/mohinga/mohinga_2.jpg'' \<mapsto> ''bytes'',
                  ''Myanmar_Food_Images/mohinga/mohinga_3.png'' \<mapsto> ''bytes'',
                  ''Myanmar_Food_Images/mohinga/mohinga_4.jpg'' \<mapsto> ''bytes'',
                  ''Myanmar_Food_Images/mohinga/mohinga_5.webp'' \<mapsto> ''bytes'']\<rparr>)"
proof -
  have u: "lib_urlparse demo_env = (\<lambda>url. Inr (urlparse url))"
    "fs_makedirs demo_env = (\<lambda>p. None)"
    by (simp_all add: demo_env_def)
  have d: "driver demo_state = Some 1" by (simp add: demo_state_def)
  have i: "images_per_food (init_scraper False 30) = 30" by (simp add: init_scraper_def)
  show ?thesis
    unfolding scrape_food_images_cases [of demo_env, unfolded u, OF refl] Let_def
      demo_urls [OF d disjI1 [OF refl]] demo_folder i
    by (simp add: py_slice_to_def process_image_def u demo_names demo_paths demo_download_ok
          demo_state_def)
qed

lemma demo_failing_downloads:
  "u \<noteq> ''http://img.example/b.PNG?x=1'' \<Longrightarrow> u \<noteq> ''http://img.example/d'' \<Longrightarrow>
   download_image demo_env_failing u fp s
     = (Inr True, s\<lparr>fetched := fetched s @ [u], files := (files s)(fp \<mapsto> ''bytes'')\<rparr>)"
  "download_image demo_env_failing ''http://img.example/b.PNG?x=1'' fp s
     = (Inr False, s\<lparr>fetched := fetched s @ [''http://img.example/b.PNG?x=1'']\<rparr>)"
  "download_image demo_env_failing ''http://img.example/d'' fp s
     = (Inr False, s\<lparr>fetched := fetched s @ [''http://img.example/d'']\<rparr>)"
  by (simp_all add: download_image_cases demo_env_failing_def demo_env_def demo_headers_get
        demo_content_types Let_def)
     (simp add: demo_response_def)

lemma demo_run_failing:
  "scrape_food_images demo_env_failing (init_scraper False 30) ''mohinga'' demo_state
   = (Inr (), demo_state\<lparr>dirs := {''Myanmar_Food_Images/mohinga''},
        fetched := [''http://img.example/a.jpg'', ''http://img.example/b.PNG?x=1'',
          ''http://img.example/c.png'', ''http://img.example/d'', ''http://img.example/e.webp''],
        files := [''Myanmar_Food_Images/mohinga/mohinga_1.jpg'' \<mapsto> ''bytes'',
                  ''Myanmar_Food_Images/mohinga/mohinga_3.png'' \<mapsto> ''bytes'',
                  ''Myanmar_Food_Images/mohinga/mohinga_5.webp'' \<mapsto> ''bytes'']\<rparr>)"
proof -
  have u: "lib_urlparse demo_env_failing = (\<lambda>url. Inr (urlparse url))"
    "fs_makedirs demo_env_failing = (\<lambda>p. None)"
    by (simp_all add: demo_env_def demo_env_failing_def)
  have d: "driver demo_state = Some 1" by (simp add: demo_state_def)
  have i: "images_per_food (init_scraper False 30) = 30" by (simp add: init_scraper_def)
  show ?thesis
    unfolding scrape_food_images_cases [of demo_env_failing, unfolded u, OF refl] Let_def
      demo_urls [OF d disjI2 [OF refl]] demo_folder i
    by (simp add: py_slice_to_def process_image_def u demo_names demo_paths
          demo_failing_downloads demo_state_def)
qed

text \<open>
  C1 as stated fails. Five URLs are attempted; the second fails with a connection error
  and the fourth is an HTML page. The three files written carry the suffixes 1, 3 and 5,
  and no file with the suffix 2 exists.
\<close>

theorem suffix_counts_attempts_counterexample:
  "fetched (snd (scrape_food_images demo_env_failing (init_scraper False 30) ''mohinga'' demo_state))
     = [''http://img.example/a.jpg'', ''http://img.example/b.PNG?x=1'',
        ''http://img.example/c.png'', ''http://img.example/d'', ''http://img.example/e.webp'']
   \<and> dom (files (snd (scrape_food_images demo_env_failing (init_scraper False 30) ''mohinga''
                       demo_state)))
     = {''Myanmar_Food_Images/mohinga/mohinga_1.jpg'',
        ''Myanmar_Food_Images/mohinga/mohinga_3.png'',
        ''Myanmar_Food_Images/mohinga/mohinga_5.webp''}
   \<and> \<not> (\<exists>ext. ''Myanmar_Food_Images/mohinga/mohinga_2'' @ ext
               \<in> dom (files (snd (scrape_food_images demo_env_failing (init_scraper False 30)
                                    ''mohinga'' demo_state))))"
  unfolding demo_run_failing by (simp add: demo_state_def insert_commute)

text \<open>The amended C1 in that run: the third URL succeeds and its file has the suffix 3.\<close>

theorem suffix_counts_attempts_witness:
  "''Myanmar_Food_Images/mohinga/mohinga_3.png''
     \<in> dom (files (snd (scrape_food_images demo_env_failing (init_scraper False 30) ''mohinga''
                         demo_state)))"
proof -
  let ?urls = "[''http://img.example/a.jpg'', ''http://img.example/b.PNG?x=1'',
          ''http://img.example/c.png'', ''http://img.example/d'', ''http://img.example/e.webp'']"
  let ?self = "init_scraper False 30"
  have h1: "fs_makedirs demo_env_failing (path_join (base_folder ?self) ''mohinga'') = None"
    by (simp add: demo_env_failing_def demo_env_def)
  have h2: "get_image_urls demo_env_failing demo_state ''mohinga'' = Inr ?urls"
    by (rule demo_urls [of _ 1]) (simp_all add: demo_state_def)
  have h3: "scrape_food_images demo_env_failing ?self ''mohinga'' demo_state
      = (Inr (), snd (scrape_food_images demo_env_failing ?self ''mohinga'' demo_state))"
    by (simp add: demo_run_failing)
  have att: "py_slice_to ?urls (images_per_food ?self) = ?urls"
    by (simp add: py_slice_to_def init_scraper_def)
  have name: "''mohinga'' @ ''_'' @ str_of_nat (2 + 1) @ file_extension_of (urlparse ''http://img.example/c.png'')
      = ''mohinga_3.png''"
    by code_simp
  have ok: "download_succeeds demo_env_failing ''http://img.example/c.png''
      ''Myanmar_Food_Images/mohinga/mohinga_3.png''"
    by (simp add: download_succeeds_def demo_env_failing_def demo_env_def demo_headers_get
          demo_content_types raise_for_status_def)
       (simp add: demo_response_def)
  have p: "lib_urlparse demo_env_failing ''http://img.example/c.png''
      = Inr (urlparse ''http://img.example/c.png'')"
    by (simp add: demo_env_failing_def demo_env_def)
  from scrape_food_images_names_by_position [OF h1 h2 h3, unfolded att demo_folder]
  have "\<forall>i p. i < length ?urls \<and> lib_urlparse demo_env_failing (?urls ! i) = Inr p
          \<and> download_succeeds demo_env_failing (?urls ! i)
               (path_join ''Myanmar_Food_Images/mohinga''
                  (''mohinga'' @ ''_'' @ str_of_nat (i + 1) @ file_extension_of p))
          \<longrightarrow> path_join ''Myanmar_Food_Images/mohinga''
                 (''mohinga'' @ ''_'' @ str_of_nat (i + 1) @ file_extension_of p)
               \<in> dom (files (snd (scrape_food_images demo_env_failing ?self ''mohinga'' demo_state)))"
    by blast
  from this [rule_format, of 2 "urlparse ''http://img.example/c.png''"] p ok
  show ?thesis
    unfolding name demo_paths by simp
qed

text \<open>
  C2 as stated fails. The path of \<^verbatim>\<open>http://img.example/b.PNG?x=1\<close> has the suffix
  \<^verbatim>\<open>.PNG\<close>, which is \<^verbatim>\<open>.png\<close> apart from case, and the file is saved as \<^verbatim>\<open>.jpg\<close>.
\<close>

theorem file_extension_case_insensitive_counterexample:
  "snd (splitext (path (urlparse ''http://img.example/b.PNG?x=1''))) = ''.PNG''
   \<and> lower ''.PNG'' \<in> set [''.jpg'', ''.jpeg'', ''.png'', ''.webp'']
   \<and> file_extension_of (urlparse ''http://img.example/b.PNG?x=1'') = ''.jpg''
   \<and> dom (files (snd (process_image demo_env ''mohinga'' ''Myanmar_Food_Images/mohinga'' 1
                       ''http://img.example/b.PNG?x=1'' demo_state)))
     = {''Myanmar_Food_Images/mohinga/mohinga_2.jpg''}"
proof -
  have a: "snd (splitext (path (urlparse ''http://img.example/b.PNG?x=1''))) = ''.PNG''"
    by code_simp
  have b: "lower ''.PNG'' \<in> set [''.jpg'', ''.jpeg'', ''.png'', ''.webp'']"
    by code_simp
  have c: "file_extension_of (urlparse ''http://img.example/b.PNG?x=1'') = ''.jpg''"
    by code_simp
  have d: "dom (files (snd (process_image demo_env ''mohinga'' ''Myanmar_Food_Images/mohinga'' 1
                       ''http://img.example/b.PNG?x=1'' demo_state)))
     = {''Myanmar_Food_Images/mohinga/mohinga_2.jpg''}"
    by (simp add: process_image_def demo_env_def [THEN arg_cong, of lib_urlparse]
          demo_names demo_paths demo_download_ok demo_state_def)
  from a b c d show ?thesis by blast
qed

text \<open>The amended C2 on a URL whose suffix is in the list as written.\<close>

theorem file_extension_case_sensitive_allow_list_witness:
  "process_image demo_env ''mohinga'' ''Myanmar_Food_Images/mohinga'' 2
     ''http://img.example/c.png'' demo_state
   = download_image demo_env ''http://img.example/c.png''
       ''Myanmar_Food_Images/mohinga/mohinga_3.png'' demo_state"
proof -
  have p: "lib_urlparse demo_env ''http://img.example/c.png''
      = Inr (urlparse ''http://img.example/c.png'')"
    by (simp add: demo_env_def)
  have name: "''mohinga'' @ ''_'' @ str_of_nat (2 + 1) @ file_extension_of (urlparse ''http://img.example/c.png'')
      = ''mohinga_3.png''"
    by code_simp
  from file_extension_case_sensitive_allow_list
         [of "urlparse ''http://img.example/c.png''" "[]" "[]" demo_env "''http://img.example/c.png''"
             "''mohinga''" "''Myanmar_Food_Images/mohinga''" 2 demo_state] p
  show ?thesis
    unfolding name demo_paths by simp
qed



text \<open>
  C5 on an HTML response, and on an image response whose destination already holds a
  file.
\<close>

theorem download_image_requires_image_content_type_witness:
  "download_image demo_env_failing ''http://img.example/d''
       ''Myanmar_Food_Images/mohinga/mohinga_4.jpg'' demo_state
     = (Inr False, demo_state\<lparr>fetched := fetched demo_state @ [''http://img.example/d'']\<rparr>)
   \<and> (\<exists>resp. requests_get demo_env ''http://img.example/a.jpg'' = Inr resp
         \<and> str_contains (lower (headers_get (headers resp) ''content-type'' '''')) ''image''
         \<and> files (snd (download_image demo_env ''http://img.example/a.jpg''
                          ''Myanmar_Food_Images/mohinga/mohinga_1.jpg''
                          (demo_state\<lparr>files := [''Myanmar_Food_Images/mohinga/mohinga_1.jpg''
                                                    \<mapsto> ''old'']\<rparr>)))
             = [''Myanmar_Food_Images/mohinga/mohinga_1.jpg'' \<mapsto> ''old'']
                 (''Myanmar_Food_Images/mohinga/mohinga_1.jpg'' \<mapsto> content resp))"
proof -
  have r: "requests_get demo_env_failing ''http://img.example/d''
      = Inr (demo_response 200 ''text/html'')"
    by (simp add: demo_env_failing_def demo_env_def)
  have n: "\<not> str_contains
      (lower (headers_get (headers (demo_response 200 ''text/html'')) ''content-type'' '''')) ''image''"
    by (simp add: demo_headers_get demo_content_types)
  have t: "fst (download_image demo_env ''http://img.example/a.jpg''
                  ''Myanmar_Food_Images/mohinga/mohinga_1.jpg''
                  (demo_state\<lparr>files := [''Myanmar_Food_Images/mohinga/mohinga_1.jpg''
                                            \<mapsto> ''old'']\<rparr>)) = Inr True"
    by (simp add: demo_download_ok)
  note c1 = download_image_requires_image_content_type
      [of demo_env_failing "''http://img.example/d''" "demo_response 200 ''text/html''"
          "''Myanmar_Food_Images/mohinga/mohinga_4.jpg''" demo_state]
  note c2 = download_image_requires_image_content_type
      [of demo_env "''http://img.example/a.jpg''" "demo_response 200 ''image/jpeg''"
          "''Myanmar_Food_Images/mohinga/mohinga_1.jpg''"
          "demo_state\<lparr>files := [''Myanmar_Food_Images/mohinga/mohinga_1.jpg'' \<mapsto> ''old'']\<rparr>"]
  from c1 r n have one: "download_image demo_env_failing ''http://img.example/d''
       ''Myanmar_Food_Images/mohinga/mohinga_4.jpg'' demo_state
     = (Inr False, demo_state\<lparr>fetched := fetched demo_state @ [''http://img.example/d'']\<rparr>)"
    by blast
  from c2 t have two: "\<exists>resp. requests_get demo_env ''http://img.example/a.jpg'' = Inr resp
         \<and> str_contains (lower (headers_get (headers resp) ''content-type'' '''')) ''image''
         \<and> files (snd (download_image demo_env ''http://img.example/a.jpg''
                          ''Myanmar_Food_Images/mohinga/mohinga_1.jpg''
                          (demo_state\<lparr>files := [''Myanmar_Food_Images/mohinga/mohinga_1.jpg''
                                                    \<mapsto> ''old'']\<rparr>)))
             = (files (demo_state\<lparr>files := [''Myanmar_Food_Images/mohinga/mohinga_1.jpg''
                                                    \<mapsto> ''old'']\<rparr>))
                 (''Myanmar_Food_Images/mohinga/mohinga_1.jpg'' \<mapsto> content resp)"
    by blast
  from one two show ?thesis by simp
qed

text \<open>C10 on a response with status 200 and no headers.\<close>

theorem download_image_no_content_type_witness:
  "download_image
     (demo_env\<lparr>requests_get :=
        (\<lambda>url. Inr \<lparr>status_code = 200, headers = Map.empty, content = ''bytes''\<rparr>)\<rparr>)
     ''http://img.example/a.jpg'' ''Myanmar_Food_Images/mohinga/mohinga_1.jpg'' demo_state
   = (Inr False, demo_state\<lparr>fetched := fetched demo_state @ [''http://img.example/a.jpg'']\<rparr>)"
  by (rule download_image_no_content_type
        [of _ _ "\<lparr>status_code = 200, headers = Map.empty, content = ''bytes''\<rparr>"])
     simp_all

text \<open>C9 on a results page without image elements.\<close>

theorem scrape_food_images_no_urls_witness:
  "scrape_food_images (demo_env\<lparr>drv_find_imgs := (\<lambda>url. Inr [])\<rparr>) (init_scraper False 30)
       ''mohinga'' demo_state
     = (Inr (), demo_state\<lparr>dirs := insert ''Myanmar_Food_Images/mohinga'' (dirs demo_state)\<rparr>)
   \<and> ''Myanmar_Food_Images/mohinga''
       \<in> dirs (snd (scrape_food_images (demo_env\<lparr>drv_find_imgs := (\<lambda>url. Inr [])\<rparr>)
                      (init_scraper False 30) ''mohinga'' demo_state))"
proof -
  let ?E = "demo_env\<lparr>drv_find_imgs := (\<lambda>url. Inr [])\<rparr>"
  have h1: "fs_makedirs ?E (path_join (base_folder (init_scraper False 30)) ''mohinga'') = None"
    by (simp add: demo_env_def)
  have "scroll_loop ?E (search_url ''mohinga'') [0..<15] = None"
    by (rule scroll_loop_quiet) (simp add: demo_env_def)
  then have h2: "get_image_urls ?E demo_state ''mohinga'' = Inr []"
    by (simp add: get_image_urls_def get_image_urls_try_def demo_env_def demo_state_def
          dedup_urls_Nil)
  from scrape_food_images_no_urls [OF h1 h2] show ?thesis
    by (simp add: demo_folder)
qed

text \<open>C8 on an element with both attributes, with the fallback only, and with neither.\<close>

theorem collect_image_urls_prefers_src_witness:
  "collect_image_urls
     [demo_img (Some ''http://img.example/c.png'') (Some ''http://img.example/c2.png'')] []
     = Inr [''http://img.example/c.png'']
   \<and> collect_image_urls [demo_img None (Some ''http://img.example/b.PNG?x=1'')] []
     = Inr [''http://img.example/b.PNG?x=1'']
   \<and> collect_image_urls [demo_img None None] [] = Inr []"
  using collect_image_urls_prefers_src
      [of "demo_img (Some ''http://img.example/c.png'') (Some ''http://img.example/c2.png'')"
          "Some ''http://img.example/c.png''" "Some ''http://img.example/c2.png''" "[]" "[]"]
    collect_image_urls_prefers_src
      [of "demo_img None (Some ''http://img.example/b.PNG?x=1'')"
          None "Some ''http://img.example/b.PNG?x=1''" "[]" "[]"]
    collect_image_urls_prefers_src [of "demo_img None None" None None "[]" "[]"]
  by (simp add: demo_img_def startswith_def)

text \<open>
  C7 on a run that completes, a run interrupted during the delay after the first food, a
  single-food run interrupted during navigation, and a run whose browser does not launch.
\<close>

theorem browser_session_closed_exactly_once_witness:
  "quits (snd (scrape_all_foods demo_env (init_scraper False 30) (demo_state\<lparr>driver := None\<rparr>)))
     = [1]
   \<and> quits (snd (scrape_all_foods
        (demo_env\<lparr>sleep_between := (\<lambda>i. if i = 1 then Some KeyboardInterrupt else None)\<rparr>)
        (init_scraper False 30) (demo_state\<lparr>driver := None\<rparr>))) = [1]
   \<and> quits (snd (scrape_single_food
        (demo_env\<lparr>drv_get := (\<lambda>url. Some KeyboardInterrupt)\<rparr>)
        (init_scraper False 30) ''mohinga'' (demo_state\<lparr>driver := None\<rparr>))) = [1]
   \<and> scrape_all_foods
        (demo_env\<lparr>chrome_launch := (\<lambda>options. Inl (Exception ''WebDriverException''))\<rparr>)
        (init_scraper False 30) (demo_state\<lparr>driver := None\<rparr>)
     = (Inl (Exception ''WebDriverException''),
        demo_state\<lparr>driver := None, dirs := {''Myanmar_Food_Images''}\<rparr>)"
  using browser_session_closed_exactly_once
      [of demo_env "init_scraper False 30" 1 "demo_state\<lparr>driver := None\<rparr>" "''mohinga''"
          "Exception ''WebDriverException''"]
    browser_session_closed_exactly_once
      [of "demo_env\<lparr>sleep_between := (\<lambda>i. if i = 1 then Some KeyboardInterrupt else None)\<rparr>"
          "init_scraper False 30" 1 "demo_state\<lparr>driver := None\<rparr>" "''mohinga''"
          "Exception ''WebDriverException''"]
    browser_session_closed_exactly_once
      [of "demo_env\<lparr>drv_get := (\<lambda>url. Some KeyboardInterrupt)\<rparr>"
          "init_scraper False 30" 1 "demo_state\<lparr>driver := None\<rparr>" "''mohinga''"
          "Exception ''WebDriverException''"]
    browser_session_closed_exactly_once
      [of "demo_env\<lparr>chrome_launch := (\<lambda>options. Inl (Exception ''WebDriverException''))\<rparr>"
          "init_scraper False 30" 1 "demo_state\<lparr>driver := None\<rparr>" "''mohinga''"
          "Exception ''WebDriverException''"]
  by (simp add: demo_env_def demo_state_def init_scraper_def)

text \<open>
  C6 on a failing navigation, a request that times out, a response with status 404 and a
  destination that cannot be opened.
\<close>

theorem exceptions_are_caught_witness:
  "get_image_urls (demo_env\<lparr>drv_get := (\<lambda>url. Some (Exception ''WebDriverException''))\<rparr>)
       demo_state ''mohinga'' = Inr []
   \<and> download_image (demo_env\<lparr>requests_get := (\<lambda>url. Inl (Exception ''ConnectTimeout''))\<rparr>)
       ''http://img.example/a.jpg'' ''Myanmar_Food_Images/mohinga/mohinga_1.jpg'' demo_state
     = (Inr False, demo_state\<lparr>fetched := fetched demo_state @ [''http://img.example/a.jpg'']\<rparr>)
   \<and> download_image
       (demo_env\<lparr>requests_get := (\<lambda>url. Inr (demo_response 404 ''image/png''))\<rparr>)
       ''http://img.example/a.jpg'' ''Myanmar_Food_Images/mohinga/mohinga_1.jpg'' demo_state
     = (Inr False, demo_state\<lparr>fetched := fetched demo_state @ [''http://img.example/a.jpg'']\<rparr>)
   \<and> fst (download_image (demo_env\<lparr>fs_write := (\<lambda>p d. OpenFails (Exception ''OSError''))\<rparr>)
       ''http://img.example/a.jpg'' ''Myanmar_Food_Images/mohinga/mohinga_1.jpg'' demo_state)
     = Inr False"
proof -
  let ?fp = "''Myanmar_Food_Images/mohinga/mohinga_1.jpg''"
  let ?u = "''http://img.example/a.jpg''"
  let ?E1 = "demo_env\<lparr>drv_get := (\<lambda>url. Some (Exception ''WebDriverException''))\<rparr>"
  let ?E2 = "demo_env\<lparr>requests_get := (\<lambda>url. Inl (Exception ''ConnectTimeout''))\<rparr>"
  let ?E3 = "demo_env\<lparr>requests_get := (\<lambda>url. Inr (demo_response 404 ''image/png''))\<rparr>"
  let ?E4 = "demo_env\<lparr>fs_write := (\<lambda>p d. OpenFails (Exception ''OSError''))\<rparr>"
  have w: "fst (download_image_try ?E4 ?u ?fp demo_state) = Inl (Exception ''OSError'')"
    by (simp add: download_image_try_def demo_env_def raise_for_status_def demo_headers_get
          demo_content_types Let_def)
       (simp add: demo_response_def)
  have one: "get_image_urls ?E1 demo_state ''mohinga'' = Inr []"
    using exceptions_are_caught [of ?E1 demo_state "''mohinga''" "''WebDriverException''" 1]
    by (simp add: demo_state_def)
  have two: "download_image ?E2 ?u ?fp demo_state
      = (Inr False, demo_state\<lparr>fetched := fetched demo_state @ [?u]\<rparr>)"
    using exceptions_are_caught [of ?E2 demo_state _ "''ConnectTimeout''" _ ?u ?fp]
    by simp
  have three: "download_image ?E3 ?u ?fp demo_state
      = (Inr False, demo_state\<lparr>fetched := fetched demo_state @ [?u]\<rparr>)"
    using exceptions_are_caught [of ?E3 demo_state _ _ _ ?u ?fp "demo_response 404 ''image/png''"]
    by (simp add: demo_response_def)
  have four: "fst (download_image ?E4 ?u ?fp demo_state) = Inr False"
    using exceptions_are_caught [of ?E4 demo_state _ "''OSError''" _ ?u ?fp] w
    by blast
  from one two three four show ?thesis by blast
qed

end
